theory Spec2Isabelle
  imports Main "HOL-Library.Word"
begin

section \<open>Return codes, C integer conversions, assertions\<close>

text \<open>
  The errno values the core produces itself (Linux numbering). A function of the
  source returns \<open>0\<close> or \<open>-errno\<close>; return codes are modelled as \<open>int\<close>.
\<close>

definition ENOENT :: int where "ENOENT = 2"
definition ENOMEM :: int where "ENOMEM = 12"
definition EINVAL :: int where "EINVAL = 22"

text \<open>
  \<open>assert()\<close> aborts the process when its condition fails; a call of the source
  therefore either aborts or returns.
\<close>

datatype 'a result = AssertFail | Ret 'a

text \<open>
  Conversions between \<open>ssize_t\<close> (64-bit two's complement) and \<open>size_t\<close>
  (64-bit unsigned), and truncation to \<open>uint32_t\<close> and to \<open>int\<close>.
  Unsigned values are natural numbers with the wrap-around written out.
\<close>

definition to_size_t :: "int \<Rightarrow> nat" where
  "to_size_t v = nat (v mod 2 ^ 64)"

definition to_ssize_t :: "nat \<Rightarrow> int" where
  "to_ssize_t u = (if u mod 2 ^ 64 < 2 ^ 63 then int (u mod 2 ^ 64) else int (u mod 2 ^ 64) - 2 ^ 64)"

definition u64 :: "nat \<Rightarrow> nat" where
  "u64 n = n mod 2 ^ 64"

definition u32 :: "nat \<Rightarrow> nat" where
  "u32 n = n mod 2 ^ 32"

text \<open>Unsigned subtraction, which wraps around below zero.\<close>

definition sub64 :: "nat \<Rightarrow> nat \<Rightarrow> nat" where
  "sub64 a b = (a + 2 ^ 64 - b mod 2 ^ 64) mod 2 ^ 64"

definition sub32 :: "nat \<Rightarrow> nat \<Rightarrow> nat" where
  "sub32 a b = (a + 2 ^ 32 - b mod 2 ^ 32) mod 2 ^ 32"

definition to_int32 :: "nat \<Rightarrow> int" where
  "to_int32 n = (if n mod 2 ^ 32 < 2 ^ 31 then int (n mod 2 ^ 32) else int (n mod 2 ^ 32) - 2 ^ 32)"

section \<open>Data model\<close>

type_synonym byte = "8 word"

text \<open>The object identifier: a 128-bit value, two 64-bit halves.\<close>

type_synonym dstore_oid_t = "64 word \<times> 64 word"

text \<open>
  Modelled from the spec: \<open>enum dstore_io_op_type\<close> is declared in
  \<open>dstore_internal.h\<close>, which is not part of the sources. The three operation
  types the sources name are constructors; \<open>DSTORE_IO_OP_OTHER\<close> stands for every
  other value a C caller can pass in the enum.
\<close>

datatype dstore_io_op_type =
  DSTORE_IO_OP_WRITE | DSTORE_IO_OP_READ | DSTORE_IO_OP_FREE | DSTORE_IO_OP_OTHER nat

text \<open>
  Modelled from the spec: \<open>struct dstore_io_vec\<close> (\<open>dstore_bufvec.h\<close>, not part
  of the sources) is three parallel arrays (buffers, sizes, offsets), their count and
  a flags field that encodes whether the vector carries data.
\<close>

record dstore_io_vec =
  dbufs :: "byte list list"
  svec :: "nat list"
  ovec :: "nat list"
  nr :: nat
  has_data :: bool

text \<open>
  The configuration collection as the core consults it: \<open>get_config_item\<close> for a
  section and a key yields a return code and the item (its string value) when present.
\<close>

type_synonym collection_item = "string \<Rightarrow> string \<Rightarrow> int \<times> string option"

text \<open>
  The backend operations table \<open>struct dstore_ops\<close>, restricted to the entries the
  verified functions call. A backend works on a state of type \<open>'s\<close>; an IO
  operation handle has type \<open>'op\<close>, and a C pointer to one is an \<open>'op option\<close>
  (\<open>None\<close> is \<open>NULL\<close>).
\<close>

record ('s, 'op) dstore_ops =
  init :: "collection_item \<Rightarrow> 's \<Rightarrow> int \<times> 's"
  obj_delete :: "dstore_oid_t \<Rightarrow> 's \<Rightarrow> int \<times> 's"
  io_op_init :: "dstore_oid_t \<Rightarrow> dstore_io_op_type \<Rightarrow> dstore_io_vec \<Rightarrow> nat option \<Rightarrow> 's
                   \<Rightarrow> int \<times> 'op option \<times> 's"
  io_op_submit :: "'op option \<Rightarrow> 's \<Rightarrow> int \<times> 's"
  io_op_fini :: "'op \<Rightarrow> 's \<Rightarrow> 's"
  obj_get_bsize :: "dstore_oid_t \<Rightarrow> 's \<Rightarrow> int \<times> 's"

text \<open>\<open>struct dstore\<close>: the singleton; \<open>ds_ops = None\<close> is a \<open>NULL\<close> table pointer.\<close>

record ('s, 'op) dstore =
  ds_type :: string
  ds_flags :: int
  ds_ops :: "('s, 'op) dstore_ops option"

section \<open>The \<open>cortx\<close> plugin\<close>

datatype log_level = LOG_ERR | LOG_WARN | LOG_DEBUG

text \<open>
  The state the \<open>cortx\<close> plugin works on: the log it writes and the state of the
  Motr client library (of type \<open>'m\<close>), which is external.
\<close>

record 'm cortx_state =
  log :: "log_level list"
  motr :: 'm

datatype m0_obj_opcode = M0_OC_READ | M0_OC_WRITE | M0_OC_FREE

text \<open>
  The calls into the Motr client library that the plugin makes, as parameters:
  \<open>m0init\<close>, \<open>m0store_delete_object\<close>, \<open>m0store_get_bsize\<close>, \<open>M0_ALLOC_PTR\<close>
  (whether the allocation succeeded), \<open>m0_free\<close>, \<open>m0_obj_op\<close> (with the opcode,
  the vector and whether data buffers are passed; it yields a return code and the Motr
  operation), \<open>m0_op_setup\<close>, \<open>m0_op_launch\<close>, and \<open>m0_op_fini\<close> followed by
  \<open>m0_op_free\<close>.
\<close>

record ('m, 'cop) m0_client =
  m0init :: "collection_item \<Rightarrow> 'm \<Rightarrow> int \<times> 'm"
  m0store_delete_object :: "dstore_oid_t \<Rightarrow> 'm \<Rightarrow> int \<times> 'm"
  m0store_get_bsize :: "dstore_oid_t \<Rightarrow> 'm \<Rightarrow> int"
  m0_alloc_ptr :: "'m \<Rightarrow> bool \<times> 'm"
  m0_free :: "'m \<Rightarrow> 'm"
  m0_obj_op :: "m0_obj_opcode option \<Rightarrow> dstore_io_vec \<Rightarrow> bool \<Rightarrow> 'm \<Rightarrow> int \<times> 'cop \<times> 'm"
  m0_op_setup :: "'cop \<Rightarrow> 'm \<Rightarrow> 'm"
  m0_op_launch :: "'cop \<Rightarrow> 'm \<Rightarrow> 'm"
  m0_op_fini_free :: "'cop \<Rightarrow> 'm \<Rightarrow> 'm"

definition cortx_ds_init ::
  "('m, 'cop) m0_client \<Rightarrow> collection_item \<Rightarrow> 'm cortx_state \<Rightarrow> int \<times> 'm cortx_state" where
  "cortx_ds_init m0 cfg_items s =
     (case m0init m0 cfg_items (motr s) of (rc, m') \<Rightarrow> (rc, s\<lparr>motr := m'\<rparr>))"

definition cortx_ds_obj_del ::
  "('m, 'cop) m0_client \<Rightarrow> dstore_oid_t \<Rightarrow> 'm cortx_state \<Rightarrow> int \<times> 'm cortx_state" where
  "cortx_ds_obj_del m0 oid s =
     (case m0store_delete_object m0 oid (motr s) of
        (rc, m') \<Rightarrow>
          let l1 = (if rc \<noteq> 0 then (if rc = - ENOENT then [LOG_WARN] else [LOG_ERR]) else [])
          in (rc, \<lparr>log = log s @ l1 @ [LOG_DEBUG], motr = m'\<rparr>))"

definition cortx_ds_obj_get_bsize ::
  "('m, 'cop) m0_client \<Rightarrow> dstore_oid_t \<Rightarrow> 'm cortx_state \<Rightarrow> int \<times> 'm cortx_state" where
  "cortx_ds_obj_get_bsize m0 oid s =
     (m0store_get_bsize m0 oid (motr s), s\<lparr>log := log s @ [LOG_DEBUG]\<rparr>)"

text \<open>
  \<open>dstore_io_op_type2m0_op_type\<close>; the \<open>default\<close> branch (\<open>dassert(0)\<close>) yields
  no opcode.
\<close>

fun dstore_io_op_type2m0_op_type :: "dstore_io_op_type \<Rightarrow> m0_obj_opcode option" where
  "dstore_io_op_type2m0_op_type DSTORE_IO_OP_WRITE = Some M0_OC_WRITE"
| "dstore_io_op_type2m0_op_type DSTORE_IO_OP_READ = Some M0_OC_READ"
| "dstore_io_op_type2m0_op_type DSTORE_IO_OP_FREE = Some M0_OC_FREE"
| "dstore_io_op_type2m0_op_type (DSTORE_IO_OP_OTHER n) = None"

text \<open>
  \<open>struct cortx_io_op\<close>: the base operation (type, object, callback, vector) and the
  Motr operation. \<open>base_data = None\<close> is the vector as \<open>M0_ALLOC_PTR\<close> zeroed it:
  no vector was moved into the operation.
\<close>

record 'cop cortx_io_op =
  base_type :: dstore_io_op_type
  base_obj :: dstore_oid_t
  base_cb :: "nat option"
  base_data :: "dstore_io_vec option"
  cop :: 'cop

text \<open>
  \<open>cortx_ds_io_op_init\<close>. The result is the return code, the value of \<open>*out\<close> when
  the caller initialised it to \<open>NULL\<close>, and the plugin state. Only the branch for a
  vector with data moves the vector into the operation (\<open>dstore_io_vec_move\<close>); the
  branch without data hands the extents of \<open>bvec\<close> to \<open>m0_obj_op\<close> and leaves
  \<open>base.data\<close> zeroed.
\<close>

definition cortx_ds_io_op_init ::
  "('m, 'cop) m0_client \<Rightarrow> dstore_oid_t \<Rightarrow> dstore_io_op_type \<Rightarrow> dstore_io_vec \<Rightarrow> nat option
    \<Rightarrow> 'm cortx_state \<Rightarrow> int \<times> 'cop cortx_io_op option \<times> 'm cortx_state" where
  "cortx_ds_io_op_init m0 dobj type bvec cb s =
     (if type \<noteq> DSTORE_IO_OP_WRITE \<and> type \<noteq> DSTORE_IO_OP_READ \<and> type \<noteq> DSTORE_IO_OP_FREE
      then (- EINVAL, None, s\<lparr>log := log s @ [LOG_ERR, LOG_DEBUG]\<rparr>)
      else (case m0_alloc_ptr m0 (motr s) of
              (ok, m1) \<Rightarrow>
                if \<not> ok then (- ENOMEM, None, \<lparr>log = log s @ [LOG_DEBUG], motr = m1\<rparr>)
                else (case m0_obj_op m0 (dstore_io_op_type2m0_op_type type) bvec (has_data bvec) m1 of
                        (rc, c, m2) \<Rightarrow>
                          if rc \<noteq> 0
                          then (rc, None, \<lparr>log = log s @ [LOG_DEBUG], motr = m0_free m0 m2\<rparr>)
                          else (0,
                                Some \<lparr>base_type = type, base_obj = dobj, base_cb = cb,
                                      base_data = (if has_data bvec then Some bvec else None),
                                      cop = c\<rparr>,
                                \<lparr>log = log s @ [LOG_DEBUG], motr = m0_op_setup m0 c m2\<rparr>))))"

text \<open>
  \<open>cortx_ds_io_op_submit\<close> and \<open>cortx_ds_io_op_fini\<close>. The source dereferences the
  operation pointer; for \<open>NULL\<close> that is undefined, and the model leaves the state as
  it is.
\<close>

definition cortx_ds_io_op_submit ::
  "('m, 'cop) m0_client \<Rightarrow> 'cop cortx_io_op option \<Rightarrow> 'm cortx_state \<Rightarrow> int \<times> 'm cortx_state" where
  "cortx_ds_io_op_submit m0 dop s =
     (case dop of
        None \<Rightarrow> (0, s)
      | Some op \<Rightarrow> (0, \<lparr>log = log s @ [LOG_DEBUG], motr = m0_op_launch m0 (cop op) (motr s)\<rparr>))"

definition cortx_ds_io_op_fini ::
  "('m, 'cop) m0_client \<Rightarrow> 'cop cortx_io_op \<Rightarrow> 'm cortx_state \<Rightarrow> 'm cortx_state" where
  "cortx_ds_io_op_fini m0 op s = s\<lparr>motr := m0_free m0 (m0_op_fini_free m0 (cop op) (motr s))\<rparr>"

text \<open>The operations table \<open>cortx_dstore_ops\<close>.\<close>

definition cortx_dstore_ops ::
  "('m, 'cop) m0_client \<Rightarrow> ('m cortx_state, 'cop cortx_io_op) dstore_ops" where
  "cortx_dstore_ops m0 =
     \<lparr>init = cortx_ds_init m0,
      obj_delete = cortx_ds_obj_del m0,
      io_op_init = cortx_ds_io_op_init m0,
      io_op_submit = cortx_ds_io_op_submit m0,
      io_op_fini = cortx_ds_io_op_fini m0,
      obj_get_bsize = cortx_ds_obj_get_bsize m0\<rparr>"

section \<open>Backend selection: \<open>dstore_init\<close>\<close>

text \<open>
  \<open>strncmp(s1, s2, n) == 0\<close> on NUL-terminated strings: at most \<open>n\<close> characters
  are compared, and the comparison stops where both strings end.
\<close>

fun strncmp_eq :: "string \<Rightarrow> string \<Rightarrow> nat \<Rightarrow> bool" where
  "strncmp_eq s1 s2 0 = True"
| "strncmp_eq [] [] (Suc n) = True"
| "strncmp_eq (x # xs) (y # ys) (Suc n) = (x = y \<and> strncmp_eq xs ys n)"
| "strncmp_eq s1 s2 (Suc n) = False"

text \<open>
  The loop over \<open>dstore_modules\<close>: the first row whose name agrees with the
  configured type on the first \<open>strlen(dstore_type)\<close> characters.
\<close>

fun find_module :: "string \<Rightarrow> (string \<times> 'o) list \<Rightarrow> 'o option" where
  "find_module dstore_type [] = None"
| "find_module dstore_type ((name, ops) # ms) =
     (if strncmp_eq dstore_type name (length dstore_type) then Some ops
      else find_module dstore_type ms)"

text \<open>The static registry: one row, the \<open>cortx\<close> plugin.\<close>

definition dstore_modules ::
  "('m, 'cop) m0_client \<Rightarrow> (string \<times> ('m cortx_state, 'cop cortx_io_op) dstore_ops) list" where
  "dstore_modules m0 = [(''cortx'', cortx_dstore_ops m0)]"

text \<open>
  \<open>dstore_init\<close>: \<open>g\<close> is the singleton before the call; the result is the outcome,
  the singleton after the call and the backend state.
\<close>

definition dstore_init ::
  "('m, 'cop) m0_client \<Rightarrow> collection_item \<Rightarrow> int
    \<Rightarrow> ('m cortx_state, 'cop cortx_io_op) dstore \<Rightarrow> 'm cortx_state
    \<Rightarrow> int result \<times> ('m cortx_state, 'cop cortx_io_op) dstore \<times> 'm cortx_state" where
  "dstore_init m0 cfg flags g s =
     (case cfg ''dstore'' ''type'' of
        (rc, item) \<Rightarrow>
          if rc \<noteq> 0 then (Ret rc, g, s)
          else (case item of
                  None \<Rightarrow> (Ret (- EINVAL), g, s)
                | Some dstore_type \<Rightarrow>
                    let found = find_module dstore_type (dstore_modules m0);
                        g' = \<lparr>ds_type = dstore_type, ds_flags = flags, ds_ops = found\<rparr>
                    in (case found of
                          None \<Rightarrow> (AssertFail, g', s)
                        | Some ops \<Rightarrow>
                            (case init ops cfg s of (rc', s') \<Rightarrow> (Ret rc', g', s')))))"

section \<open>Object deletion and block size\<close>

definition dstore_obj_delete ::
  "('s, 'op) dstore \<Rightarrow> dstore_oid_t \<Rightarrow> 's \<Rightarrow> (int \<times> 's) result" where
  "dstore_obj_delete dstore oid s =
     (case ds_ops dstore of
        None \<Rightarrow> AssertFail
      | Some ops \<Rightarrow> Ret (obj_delete ops oid s))"

definition dstore_get_bsize_inner ::
  "('s, 'op) dstore_ops \<Rightarrow> dstore_oid_t \<Rightarrow> 's \<Rightarrow> int \<times> 's" where
  "dstore_get_bsize_inner ops oid s = obj_get_bsize ops oid s"

text \<open>
  \<open>dstore_get_bsize\<close>: the result of \<open>__dstore_get_bsize\<close> (here
  \<open>dstore_get_bsize_inner\<close>) is stored in the \<open>size_t\<close> local \<open>rc\<close> and
  returned as \<open>ssize_t\<close>.
\<close>

definition dstore_get_bsize ::
  "('s, 'op) dstore_ops \<Rightarrow> dstore_oid_t \<Rightarrow> 's \<Rightarrow> int \<times> 's" where
  "dstore_get_bsize ops oid s =
     (case dstore_get_bsize_inner ops oid s of
        (v, s') \<Rightarrow> let rc = to_size_t v in (to_ssize_t rc, s'))"

section \<open>Creating and submitting an IO operation\<close>

text \<open>
  \<open>dstore_io_op_init_and_submit\<close>: \<open>out\<close> is the value of the caller's \<open>*out\<close>
  before the call; the result holds its value after the call. The label \<open>out:\<close>
  finalizes a \<open>result\<close> that is still owned by the function.
\<close>

definition fini_result :: "('s, 'op) dstore_ops \<Rightarrow> 'op option \<Rightarrow> 's \<Rightarrow> 's" where
  "fini_result ops result s = (case result of None \<Rightarrow> s | Some r \<Rightarrow> io_op_fini ops r s)"

definition dstore_io_op_init_and_submit ::
  "('s, 'op) dstore_ops \<Rightarrow> dstore_oid_t \<Rightarrow> dstore_io_vec \<Rightarrow> 'op option \<Rightarrow> dstore_io_op_type \<Rightarrow> 's
    \<Rightarrow> int \<times> 'op option \<times> 's" where
  "dstore_io_op_init_and_submit ops obj bvec out op_type s =
     (case io_op_init ops obj op_type bvec None s of
        (rc, result, s1) \<Rightarrow>
          if rc \<noteq> 0 then (rc, out, fini_result ops result s1)
          else (case io_op_submit ops result s1 of
                  (rc2, s2) \<Rightarrow>
                    if rc2 \<noteq> 0 then (rc2, out, fini_result ops result s2)
                    else (rc2, result, s2)))"

definition dstore_io_op_write ::
  "('s, 'op) dstore_ops \<Rightarrow> dstore_oid_t \<Rightarrow> dstore_io_vec \<Rightarrow> 'op option \<Rightarrow> 's \<Rightarrow> int \<times> 'op option \<times> 's" where
  "dstore_io_op_write ops obj bvec out s =
     dstore_io_op_init_and_submit ops obj bvec out DSTORE_IO_OP_WRITE s"

definition dstore_io_op_read ::
  "('s, 'op) dstore_ops \<Rightarrow> dstore_oid_t \<Rightarrow> dstore_io_vec \<Rightarrow> 'op option \<Rightarrow> 's \<Rightarrow> int \<times> 'op option \<times> 's" where
  "dstore_io_op_read ops obj bvec out s =
     dstore_io_op_init_and_submit ops obj bvec out DSTORE_IO_OP_READ s"

section \<open>Buffers and the stored object\<close>

text \<open>
  A C buffer is a list of bytes and a pointer into it is a position. \<open>memcpy\<close> and
  \<open>memset\<close> replace \<open>n\<close> bytes from a position on. The C calls are defined only
  when source and destination ranges lie inside their buffers; there the model changes
  exactly the \<open>n\<close> bytes and keeps the length.
\<close>

definition memcpy :: "byte list \<Rightarrow> nat \<Rightarrow> byte list \<Rightarrow> nat \<Rightarrow> nat \<Rightarrow> byte list" where
  "memcpy dst dpos src spos n = take dpos dst @ take n (drop spos src) @ drop (dpos + n) dst"

definition memset :: "byte list \<Rightarrow> nat \<Rightarrow> byte \<Rightarrow> nat \<Rightarrow> byte list" where
  "memset dst dpos c n = take dpos dst @ replicate n c @ drop (dpos + n) dst"

text \<open>
  The backend behind the aligned primitives is the Motr object store, which is
  external. Its behaviour is taken from the comment in \<open>pread_aligned_handle_holes\<close>:
  one stored object is a sparse array of bytes (\<open>None\<close> is a byte that was never
  written, a hole); a read of a range with a hole answers \<open>-ENOENT\<close> (the model
  leaves the buffer as it was); a write stores its range.
  \<open>io_rcs\<close> is the schedule of results the environment imposes on the coming backend
  IO calls (\<open>0\<close>, or an empty schedule: the call runs; another value: the call fails
  with it and has no effect). \<open>heap_avail\<close> bounds what \<open>calloc\<close> can allocate.
\<close>

record world =
  obj_data :: "nat \<Rightarrow> byte option"
  io_rcs :: "int list"
  heap_avail :: nat

definition next_rc :: "world \<Rightarrow> int \<times> world" where
  "next_rc w = (case io_rcs w of [] \<Rightarrow> (0, w) | r # rs \<Rightarrow> (r, w\<lparr>io_rcs := rs\<rparr>))"

definition calloc_ok :: "world \<Rightarrow> nat \<Rightarrow> bool" where
  "calloc_ok w n = (n \<le> heap_avail w)"

text \<open>A freshly created object: every byte a hole, no failure scheduled.\<close>

definition fresh_world :: "nat \<Rightarrow> world" where
  "fresh_world heap = \<lparr>obj_data = (\<lambda>i. None), io_rcs = [], heap_avail = heap\<rparr>"

text \<open>
  Notions for stating what the IO functions do. \<open>faults_ok\<close>: every scheduled
  result is \<open>0\<close> or a negative errno other than \<open>-ENOENT\<close> (the backend reports
  \<open>-ENOENT\<close> for holes only). \<open>present\<close>: no byte of a range is a hole.
  \<open>obj_bytes\<close>: the stored bytes of a range.
\<close>

definition faults_ok :: "world \<Rightarrow> bool" where
  "faults_ok w = list_all (\<lambda>e. e \<le> 0 \<and> e \<noteq> - ENOENT) (io_rcs w)"

definition present :: "world \<Rightarrow> nat \<Rightarrow> nat \<Rightarrow> bool" where
  "present w offset n = list_all (\<lambda>i. obj_data w i \<noteq> None) [offset ..< offset + n]"

definition obj_bytes :: "world \<Rightarrow> nat \<Rightarrow> nat \<Rightarrow> byte list" where
  "obj_bytes w offset n = map (\<lambda>i. the (obj_data w i)) [offset ..< offset + n]"

section \<open>Aligned IO primitives\<close>

text \<open>
  \<open>pread_aligned\<close> and \<open>pwrite_aligned\<close> build a one-buffer vector, create and
  submit the operation, wait for it and release everything; every step can fail, and
  the return code is that of the first failing step. The model gives the net effect of
  one call on the stored object and on the buffer: one entry of the schedule decides
  whether some step fails. The buffer is \<open>buf\<close> from position \<open>pos\<close> on.
\<close>

definition pread_aligned :: "byte list \<Rightarrow> nat \<Rightarrow> nat \<Rightarrow> nat \<Rightarrow> world \<Rightarrow> int \<times> byte list \<times> world" where
  "pread_aligned read_buf pos buf_size offset w =
     (case next_rc w of
        (f, w1) \<Rightarrow>
          if f \<noteq> 0 then (f, read_buf, w1)
          else if list_all (\<lambda>i. obj_data w1 i \<noteq> None) [offset ..< offset + buf_size]
          then (0, memcpy read_buf pos (map (\<lambda>i. the (obj_data w1 i)) [offset ..< offset + buf_size]) 0 buf_size, w1)
          else (- ENOENT, read_buf, w1))"

definition pwrite_aligned :: "byte list \<Rightarrow> nat \<Rightarrow> nat \<Rightarrow> nat \<Rightarrow> world \<Rightarrow> int \<times> world" where
  "pwrite_aligned write_buf pos buf_size offset w =
     (case next_rc w of
        (f, w1) \<Rightarrow>
          if f \<noteq> 0 then (f, w1)
          else (0, w1\<lparr>obj_data :=
                       (\<lambda>i. if offset \<le> i \<and> i < offset + buf_size \<and> pos + (i - offset) < length write_buf
                            then Some (write_buf ! (pos + (i - offset)))
                            else obj_data w1 i)\<rparr>))"

section \<open>Hole-tolerant aligned read\<close>

text \<open>
  \<open>pread_aligned_handle_holes\<close>. The aligned read primitive is the parameter
  \<open>pra\<close> (the callers below pass \<open>pread_aligned\<close>), so that the function is
  specified for every behaviour of the backend, over any state. \<open>holes_loop\<close> is the
  \<open>for\<close> loop: \<open>count\<close> is the C \<open>int\<close> that holds \<open>buf_size/bs\<close>, \<open>i\<close> the
  loop counter.
\<close>

function holes_loop ::
  "(byte list \<Rightarrow> nat \<Rightarrow> nat \<Rightarrow> nat \<Rightarrow> 's \<Rightarrow> int \<times> byte list \<times> 's)
    \<Rightarrow> nat \<Rightarrow> nat \<Rightarrow> nat \<Rightarrow> int \<Rightarrow> nat \<Rightarrow> byte list \<Rightarrow> 's \<Rightarrow> int \<times> byte list \<times> 's" where
  "holes_loop pra bs pos offset count i read_buf s =
     (if int i < count then
        (case pra read_buf (pos + i * bs) bs (u64 (offset + u64 (i * bs))) s of
           (rc, buf1, s1) \<Rightarrow>
             if rc \<noteq> 0 then
               (if rc = - ENOENT
                then holes_loop pra bs pos offset count (Suc i) (memset buf1 (pos + i * bs) 0 bs) s1
                else (rc, buf1, s1))
             else holes_loop pra bs pos offset count (Suc i) buf1 s1)
      else (0, read_buf, s))"
  by pat_completeness auto
termination
  by (relation "measure (\<lambda>(pra, bs, pos, offset, count, i, read_buf, s). nat (count - int i))") auto

declare holes_loop.simps [simp del]

definition pread_aligned_handle_holes ::
  "(byte list \<Rightarrow> nat \<Rightarrow> nat \<Rightarrow> nat \<Rightarrow> 's \<Rightarrow> int \<times> byte list \<times> 's)
    \<Rightarrow> byte list \<Rightarrow> nat \<Rightarrow> nat \<Rightarrow> nat \<Rightarrow> nat \<Rightarrow> 's \<Rightarrow> int \<times> byte list \<times> 's" where
  "pread_aligned_handle_holes pra read_buf pos buf_size offset bs s =
     (case pra read_buf pos buf_size offset s of
        (rc, buf1, s1) \<Rightarrow>
          if rc = - ENOENT
          then holes_loop pra bs pos offset (to_int32 (buf_size div bs)) 0 buf1 s1
          else (rc, buf1, s1))"

text \<open>
  The policy in the words of the specification: the blocks in order, each read on its
  own; a block whose read answers \<open>-ENOENT\<close> is zero-filled; another non-zero
  return code ends the call; after the last block the result is \<open>0\<close>.
\<close>

fun hole_policy ::
  "(byte list \<Rightarrow> nat \<Rightarrow> nat \<Rightarrow> nat \<Rightarrow> 's \<Rightarrow> int \<times> byte list \<times> 's)
    \<Rightarrow> nat \<Rightarrow> nat \<Rightarrow> nat \<Rightarrow> nat list \<Rightarrow> byte list \<Rightarrow> 's \<Rightarrow> int \<times> byte list \<times> 's" where
  "hole_policy pra bs pos offset [] read_buf s = (0, read_buf, s)"
| "hole_policy pra bs pos offset (i # blocks) read_buf s =
     (case pra read_buf (pos + i * bs) bs (offset + i * bs) s of
        (rc, buf1, s1) \<Rightarrow>
          if rc = 0 then hole_policy pra bs pos offset blocks buf1 s1
          else if rc = - ENOENT
          then hole_policy pra bs pos offset blocks (memset buf1 (pos + i * bs) 0 bs) s1
          else (rc, buf1, s1))"

section \<open>Unaligned IO\<close>

text \<open>
  \<open>pwrite_unaligned\<close>. The block numbers and \<open>buf_pos\<close> are \<open>uint32_t\<close> in the
  source, the other quantities \<open>size_t\<close>; the truncations are written out.
  The arguments are those of the C function without the object handle: the model has one
  stored object. \<open>bs = 0\<close> makes the C code divide by zero, which is undefined; the
  model is meant for \<open>0 < bs\<close>.
\<close>

definition pwrite_unaligned :: "nat \<Rightarrow> nat \<Rightarrow> nat \<Rightarrow> byte list \<Rightarrow> world \<Rightarrow> int \<times> world" where
  "pwrite_unaligned offset count bs buf w =
     (let left_blk_num = u32 (offset div bs);
          right_blk_num0 = u32 (u64 (offset + count) div bs);
          right_blk_num = (if u64 (offset + count) mod bs = 0
                           then sub32 right_blk_num0 1 else right_blk_num0);
          num_of_blks = u32 (sub32 right_blk_num left_blk_num + 1)
      in if \<not> calloc_ok w (u64 (num_of_blks * bs)) then (- ENOMEM, w)
         else
           let tmpbuf = replicate (u64 (num_of_blks * bs)) (0 :: byte);
               (rc1, tmpbuf1, w1) =
                 (if offset mod bs \<noteq> 0
                  then pread_aligned_handle_holes pread_aligned tmpbuf 0 bs (u64 (left_blk_num * bs)) bs w
                  else (0, tmpbuf, w))
           in if rc1 < 0 then (rc1, w1)
              else
                let (rc2, tmpbuf2, w2) =
                      (if u64 (offset + count) mod bs \<noteq> 0 \<and> left_blk_num \<noteq> right_blk_num
                       then pread_aligned_handle_holes pread_aligned tmpbuf1
                              (u64 (sub32 num_of_blks 1 * bs)) bs (u64 (right_blk_num * bs)) bs w1
                       else (rc1, tmpbuf1, w1))
                in if rc2 < 0 then (rc2, w2)
                   else
                     let buf_pos = u32 (sub64 offset (u64 (left_blk_num * bs)));
                         tmpbuf3 = memcpy tmpbuf2 buf_pos buf 0 count
                     in pwrite_aligned tmpbuf3 0 (u64 (num_of_blks * bs)) (u64 (left_blk_num * bs)) w2)"

text \<open>
  \<open>pread_unaligned\<close>, in three parts. \<open>pread_unaligned_right\<close> is the code after
  the aligned run (the right-most block); \<open>pread_unaligned_cont\<close> is the code from the
  label \<open>continous_aligned_read\<close> on; \<open>pread_unaligned\<close> is the function from its
  start. \<open>rc\<close> is the value of the local \<open>rc\<close> on entry to each part.
\<close>

definition pread_unaligned_right ::
  "int \<Rightarrow> nat \<Rightarrow> nat \<Rightarrow> nat \<Rightarrow> nat \<Rightarrow> byte list \<Rightarrow> byte list \<Rightarrow> world \<Rightarrow> int \<times> byte list \<times> world" where
  "pread_unaligned_right rc offset count buf_pos bs buf tmpbuf w =
     (if count = 0 then (rc, buf, w)
      else
        (case pread_aligned_handle_holes pread_aligned tmpbuf 0 bs offset bs w of
           (rc', tmpbuf', w') \<Rightarrow>
             if rc' < 0 then (rc', buf, w')
             else (rc', memcpy buf buf_pos tmpbuf' 0 count, w')))"

definition pread_unaligned_cont ::
  "int \<Rightarrow> nat \<Rightarrow> nat \<Rightarrow> nat \<Rightarrow> nat \<Rightarrow> byte list \<Rightarrow> byte list \<Rightarrow> world \<Rightarrow> int \<times> byte list \<times> world" where
  "pread_unaligned_cont rc offset count buf_pos bs buf tmpbuf w =
     (let cont_blk_count = u32 (count div bs)
      in if cont_blk_count > 0 then
           (case pread_aligned_handle_holes pread_aligned buf buf_pos (u64 (cont_blk_count * bs)) offset bs w of
              (rc', buf', w') \<Rightarrow>
                if rc' < 0 then (rc', buf', w')
                else pread_unaligned_right rc'
                       (u64 (offset + u64 (cont_blk_count * bs)))
                       (sub64 count (u64 (cont_blk_count * bs)))
                       (u32 (buf_pos + u64 (cont_blk_count * bs)))
                       bs buf' tmpbuf w')
         else pread_unaligned_right rc offset count buf_pos bs buf tmpbuf w)"

definition pread_unaligned :: "nat \<Rightarrow> nat \<Rightarrow> nat \<Rightarrow> byte list \<Rightarrow> world \<Rightarrow> int \<times> byte list \<times> world" where
  "pread_unaligned offset count bs buf w =
     (if \<not> calloc_ok w bs then (- ENOMEM, buf, w)
      else
        let tmpbuf = replicate bs (0 :: byte)
        in if offset mod bs = 0 \<and> count \<ge> bs
           then pread_unaligned_cont 0 offset count 0 bs buf tmpbuf w
           else
             let left_blk_num = u32 (offset div bs);
                 left_bytes = u32 (sub64 offset (u64 (left_blk_num * bs)));
                 right_bytes = u32 (sub64 bs left_bytes);
                 read_count = u32 (if count < right_bytes then count else right_bytes)
             in (case pread_aligned_handle_holes pread_aligned tmpbuf 0 bs (u64 (left_blk_num * bs)) bs w of
                   (rc, tmpbuf1, w1) \<Rightarrow>
                     if rc < 0 then (rc, buf, w1)
                     else
                       let buf1 = memcpy buf 0 tmpbuf1 left_bytes read_count
                       in if count \<le> right_bytes then (rc, buf1, w1)
                          else pread_unaligned_cont rc
                                 (u64 (offset + read_count))
                                 (sub64 count read_count)
                                 read_count bs buf1 tmpbuf1 w1))"

section \<open>Positional write and read\<close>

text \<open>
  \<open>__dstore_pwrite\<close> and \<open>__dstore_pread\<close> (here with the suffix \<open>_inner\<close>) and
  the public entry points, which add performance traces only.
\<close>

definition dstore_pwrite_inner :: "nat \<Rightarrow> nat \<Rightarrow> nat \<Rightarrow> byte list \<Rightarrow> world \<Rightarrow> int \<times> world" where
  "dstore_pwrite_inner offset count bs buf w =
     (if count mod bs = 0 \<and> offset mod bs = 0
      then pwrite_aligned buf 0 count offset w
      else pwrite_unaligned offset count bs buf w)"

definition dstore_pwrite :: "nat \<Rightarrow> nat \<Rightarrow> nat \<Rightarrow> byte list \<Rightarrow> world \<Rightarrow> int \<times> world" where
  "dstore_pwrite offset count bs buf w = dstore_pwrite_inner offset count bs buf w"

definition dstore_pread_inner :: "nat \<Rightarrow> nat \<Rightarrow> nat \<Rightarrow> byte list \<Rightarrow> world \<Rightarrow> int \<times> byte list \<times> world" where
  "dstore_pread_inner offset count bs buf w =
     (if count mod bs = 0 \<and> offset mod bs = 0
      then pread_aligned_handle_holes pread_aligned buf 0 count offset bs w
      else pread_unaligned offset count bs buf w)"

definition dstore_pread :: "nat \<Rightarrow> nat \<Rightarrow> nat \<Rightarrow> byte list \<Rightarrow> world \<Rightarrow> int \<times> byte list \<times> world" where
  "dstore_pread offset count bs buf w = dstore_pread_inner offset count bs buf w"

section \<open>Resize\<close>

definition DSAL_MAX_IO_SIZE :: nat where
  "DSAL_MAX_IO_SIZE = 1024 * 1024"

text \<open>
  The \<open>for\<close> loop of \<open>dstore_obj_shrink\<close>; \<open>RC_WRAP_LABEL\<close> leaves it at the first
  non-zero return code. The result is \<open>rc\<close>, the final \<open>index\<close> and the state.
  \<open>rc\<close> is the value of the local on entry.
\<close>

function shrink_loop ::
  "nat \<Rightarrow> nat \<Rightarrow> nat \<Rightarrow> byte list \<Rightarrow> int \<Rightarrow> nat \<Rightarrow> world \<Rightarrow> int \<times> nat \<times> world" where
  "shrink_loop offset nr_request bsize tmp_buf rc index w =
     (if index < nr_request then
        (case dstore_pwrite (u64 (offset + u64 (index * DSAL_MAX_IO_SIZE))) DSAL_MAX_IO_SIZE bsize tmp_buf w of
           (rc', w') \<Rightarrow>
             if rc' \<noteq> 0 then (rc', index, w')
             else shrink_loop offset nr_request bsize tmp_buf rc' (Suc index) w')
      else (rc, index, w))"
  by pat_completeness auto
termination
  by (relation "measure (\<lambda>(offset, nr_request, bsize, tmp_buf, rc, index, w). nr_request - index)") auto

declare shrink_loop.simps [simp del]

text \<open>
  \<open>dstore_obj_shrink\<close>. The block size comes from \<open>dstore_get_bsize\<close> and is stored
  in a \<open>size_t\<close>. The local \<open>rc\<close> is not initialised in the source; it is assigned by
  the first write, and a call with \<open>old_size > new_size\<close> issues at least one write.
  The model starts it at \<open>0\<close>.
\<close>

definition dstore_obj_shrink ::
  "(world, 'op) dstore_ops \<Rightarrow> dstore_oid_t \<Rightarrow> nat \<Rightarrow> nat \<Rightarrow> world \<Rightarrow> int \<times> world" where
  "dstore_obj_shrink ops oid old_size new_size w =
     (case dstore_get_bsize ops oid w of
        (b, w0) \<Rightarrow>
          let bsize = to_size_t b;
              count = sub64 old_size new_size;
              offset = new_size
          in if \<not> calloc_ok w0 DSAL_MAX_IO_SIZE then (- ENOMEM, w0)
             else
               let tmp_buf = replicate DSAL_MAX_IO_SIZE (0 :: byte);
                   nr_request = count div DSAL_MAX_IO_SIZE;
                   tail_size = sub64 count (u64 (nr_request * DSAL_MAX_IO_SIZE))
               in (case shrink_loop offset nr_request bsize tmp_buf 0 0 w0 of
                     (rc, index, w1) \<Rightarrow>
                       if rc \<noteq> 0 then (rc, w1)
                       else if tail_size \<noteq> 0
                       then dstore_pwrite (u64 (offset + u64 (index * DSAL_MAX_IO_SIZE))) tail_size bsize tmp_buf w1
                       else (rc, w1)))"

definition dstore_obj_resize ::
  "(world, 'op) dstore_ops \<Rightarrow> dstore_oid_t \<Rightarrow> nat \<Rightarrow> nat \<Rightarrow> world \<Rightarrow> int \<times> world" where
  "dstore_obj_resize ops oid old_size new_size w =
     (if old_size \<le> new_size then (0, w)
      else dstore_obj_shrink ops oid old_size new_size w)"

text \<open>
  The resize in the words of the specification: the list of zero-fill requests
  (offset and size) for a shrink, and their execution in order through
  \<open>dstore_pwrite\<close> from a zeroed buffer, ended by the first error.
\<close>

definition shrink_requests :: "nat \<Rightarrow> nat \<Rightarrow> (nat \<times> nat) list" where
  "shrink_requests old_size new_size =
     map (\<lambda>i. (new_size + i * 2 ^ 20, 2 ^ 20)) [0 ..< (old_size - new_size) div 2 ^ 20]
     @ (if (old_size - new_size) mod 2 ^ 20 = 0 then []
        else [(new_size + ((old_size - new_size) div 2 ^ 20) * 2 ^ 20, (old_size - new_size) mod 2 ^ 20)])"

fun zero_fill :: "(nat \<times> nat) list \<Rightarrow> nat \<Rightarrow> world \<Rightarrow> int \<times> world" where
  "zero_fill [] bs w = (0, w)"
| "zero_fill ((off, n) # reqs) bs w =
     (case dstore_pwrite off n bs (replicate (2 ^ 20) 0) w of
        (rc, w') \<Rightarrow> if rc \<noteq> 0 then (rc, w') else zero_fill reqs bs w')"

section \<open>A backend that records its calls\<close>

text \<open>
  An operations table for concrete instances of the theorems below: its state is the
  list of the calls made so far, its return codes are parameters, and the operation it
  creates is the number \<open>0\<close>.
\<close>

datatype event = EvInit | EvSubmit | EvFini | EvDelete

definition trace_ops :: "int \<Rightarrow> int \<Rightarrow> int \<Rightarrow> int \<Rightarrow> (event list, nat) dstore_ops" where
  "trace_ops rc_init rc_submit rc_delete bsize =
     \<lparr>init = (\<lambda>cfg s. (0, s)),
      obj_delete = (\<lambda>oid s. (rc_delete, s @ [EvDelete])),
      io_op_init = (\<lambda>obj type bvec cb s. (rc_init, if rc_init = 0 then Some 0 else None, s @ [EvInit])),
      io_op_submit = (\<lambda>op s. (rc_submit, s @ [EvSubmit])),
      io_op_fini = (\<lambda>op s. s @ [EvFini]),
      obj_get_bsize = (\<lambda>oid s. (bsize, s))\<rparr>"

text \<open>A Motr client for concrete instances: its state counts the live allocations.\<close>

definition m0_stub :: "int \<Rightarrow> (nat, nat) m0_client" where
  "m0_stub rc_delete =
     \<lparr>m0init = (\<lambda>cfg m. (0, m)),
      m0store_delete_object = (\<lambda>oid m. (rc_delete, m)),
      m0store_get_bsize = (\<lambda>oid m. 4096),
      m0_alloc_ptr = (\<lambda>m. (True, Suc m)),
      m0_free = (\<lambda>m. m - 1),
      m0_obj_op = (\<lambda>opc v d m. (0, 7, m)),
      m0_op_setup = (\<lambda>c m. m),
      m0_op_launch = (\<lambda>c m. m),
      m0_op_fini_free = (\<lambda>c m. m)\<rparr>"

text \<open>
  An operations table over the stored object, for concrete instances of the resize
  theorem: the block size it reports is a parameter.
\<close>

definition world_ops :: "int \<Rightarrow> (world, nat) dstore_ops" where
  "world_ops bsize =
     \<lparr>init = (\<lambda>cfg s. (0, s)),
      obj_delete = (\<lambda>oid s. (0, s)),
      io_op_init = (\<lambda>obj type bvec cb s. (0, Some 0, s)),
      io_op_submit = (\<lambda>op s. (0, s)),
      io_op_fini = (\<lambda>op s. s),
      obj_get_bsize = (\<lambda>oid s. (bsize, s))\<rparr>"

section \<open>Block size pass-through\<close>

lemma to_ssize_t_to_size_t:
  assumes "- (2 ^ 63) \<le> v" and "v < 2 ^ 63"
  shows "to_ssize_t (to_size_t v) = v"
proof (cases "0 \<le> v")
  case True
  with assms have "v mod 2 ^ 64 = v" by simp
  with True assms show ?thesis by (simp add: to_ssize_t_def to_size_t_def)
next
  case False
  have "(v + 18446744073709551616) mod 18446744073709551616 = v + 18446744073709551616"
    using assms False by (intro mod_pos_pos_trivial) auto
  then have m: "v mod 18446744073709551616 = v + 18446744073709551616" by simp
  show ?thesis
    using assms False by (simp add: to_ssize_t_def to_size_t_def m nat_less_iff)
qed

text \<open>
  C10. \<open>dstore_get_bsize\<close> returns the value of the backend's \<open>obj_get_bsize\<close>
  for every \<open>ssize_t\<close> value \<open>v\<close>, negative ones included: the detour through the
  unsigned local preserves it.
\<close>

theorem dstore_get_bsize_passthrough:
  assumes "obj_get_bsize ops oid s = (v, s')"
      and "- (2 ^ 63) \<le> v" and "v < 2 ^ 63"
  shows "dstore_get_bsize ops oid s = (v, s')"
  using assms
  by (simp add: dstore_get_bsize_def dstore_get_bsize_inner_def to_ssize_t_to_size_t)

theorem dstore_get_bsize_passthrough_witness:
  "dstore_get_bsize (trace_ops 0 0 0 (- ENOENT)) (0, 0) [] = (- ENOENT, [])"
  by (rule dstore_get_bsize_passthrough) (simp_all add: trace_ops_def ENOENT_def)

section \<open>Deleting an object that does not exist\<close>

text \<open>
  C8. When the backend's delete reports \<open>-ENOENT\<close>, \<open>dstore_obj_delete\<close> returns
  \<open>-ENOENT\<close> with the backend's state: the core does not turn it into a success.
  When the backend is the \<open>cortx\<close> plugin, a warning (and the closing debug line)
  has been logged.
\<close>

theorem dstore_obj_delete_enoent:
  assumes "ds_ops dstore = Some ops"
      and "obj_delete ops oid s = (- ENOENT, s')"
  shows "dstore_obj_delete dstore oid s = Ret (- ENOENT, s') \<and>
         (obj_delete ops = cortx_ds_obj_del m0 \<longrightarrow>
            log s' = log s @ [LOG_WARN, LOG_DEBUG])"
  using assms
  by (auto simp: dstore_obj_delete_def cortx_ds_obj_del_def Let_def ENOENT_def
           split: prod.splits if_splits)

theorem dstore_obj_delete_enoent_witness:
  "dstore_obj_delete
     \<lparr>ds_type = ''cortx'', ds_flags = 0, ds_ops = Some (cortx_dstore_ops (m0_stub (- ENOENT)))\<rparr>
     (0, 0) \<lparr>log = [], motr = 0\<rparr>
   = Ret (- ENOENT, \<lparr>log = [LOG_WARN, LOG_DEBUG], motr = 0\<rparr>)"
  using dstore_obj_delete_enoent
    [of "\<lparr>ds_type = ''cortx'', ds_flags = 0, ds_ops = Some (cortx_dstore_ops (m0_stub (- ENOENT)))\<rparr>"
        "cortx_dstore_ops (m0_stub (- ENOENT))"
        "(0, 0)" "\<lparr>log = [], motr = 0\<rparr>" "\<lparr>log = [LOG_WARN, LOG_DEBUG], motr = 0\<rparr>"
        "m0_stub (- ENOENT)"]
  by (simp add: cortx_dstore_ops_def cortx_ds_obj_del_def m0_stub_def ENOENT_def)

section \<open>Validation of the operation type\<close>

text \<open>
  C7. \<open>cortx_ds_io_op_init\<close> rejects every operation type other than \<open>WRITE\<close>,
  \<open>READ\<close> and \<open>FREE\<close> with \<open>-EINVAL\<close>: no operation is created and the Motr
  state is untouched (nothing is allocated). Each of the three types is accepted: it has
  a Motr opcode, and when the allocation and \<open>m0_obj_op\<close> succeed, the call returns
  \<open>0\<close> with an operation of that type, which holds the vector when the vector
  carries data and a zeroed vector otherwise.
\<close>

theorem cortx_ds_io_op_init_type_validation:
  "(type \<notin> {DSTORE_IO_OP_WRITE, DSTORE_IO_OP_READ, DSTORE_IO_OP_FREE} \<longrightarrow>
      cortx_ds_io_op_init m0 dobj type bvec cb s
        = (- EINVAL, None, s\<lparr>log := log s @ [LOG_ERR, LOG_DEBUG]\<rparr>)) \<and>
   (type \<in> {DSTORE_IO_OP_WRITE, DSTORE_IO_OP_READ, DSTORE_IO_OP_FREE} \<longrightarrow>
      dstore_io_op_type2m0_op_type type \<noteq> None \<and>
      (\<forall>m1 c m2.
         m0_alloc_ptr m0 (motr s) = (True, m1) \<longrightarrow>
         m0_obj_op m0 (dstore_io_op_type2m0_op_type type) bvec (has_data bvec) m1 = (0, c, m2) \<longrightarrow>
         cortx_ds_io_op_init m0 dobj type bvec cb s
           = (0,
              Some \<lparr>base_type = type, base_obj = dobj, base_cb = cb,
                    base_data = (if has_data bvec then Some bvec else None), cop = c\<rparr>,
              \<lparr>log = log s @ [LOG_DEBUG], motr = m0_op_setup m0 c m2\<rparr>)))"
  by (auto simp: cortx_ds_io_op_init_def)

theorem cortx_ds_io_op_init_type_validation_witness:
  "cortx_ds_io_op_init (m0_stub 0) (0, 0) (DSTORE_IO_OP_OTHER 9)
      \<lparr>dbufs = [[1]], svec = [1], ovec = [0], nr = 1, has_data = True\<rparr> None \<lparr>log = [], motr = 0\<rparr>
     = (- EINVAL, None, \<lparr>log = [LOG_ERR, LOG_DEBUG], motr = 0\<rparr>) \<and>
   cortx_ds_io_op_init (m0_stub 0) (0, 0) DSTORE_IO_OP_FREE
      \<lparr>dbufs = [], svec = [1], ovec = [0], nr = 1, has_data = False\<rparr> None \<lparr>log = [], motr = 0\<rparr>
     = (0,
        Some \<lparr>base_type = DSTORE_IO_OP_FREE, base_obj = (0, 0), base_cb = None,
              base_data = None, cop = 7\<rparr>,
        \<lparr>log = [LOG_DEBUG], motr = 1\<rparr>) \<and>
   cortx_ds_io_op_init (m0_stub 0) (0, 0) DSTORE_IO_OP_WRITE
      \<lparr>dbufs = [[1]], svec = [1], ovec = [0], nr = 1, has_data = True\<rparr> None \<lparr>log = [], motr = 0\<rparr>
     = (0,
        Some \<lparr>base_type = DSTORE_IO_OP_WRITE, base_obj = (0, 0), base_cb = None,
              base_data = Some \<lparr>dbufs = [[1]], svec = [1], ovec = [0], nr = 1, has_data = True\<rparr>,
              cop = 7\<rparr>,
        \<lparr>log = [LOG_DEBUG], motr = 1\<rparr>)"
  using cortx_ds_io_op_init_type_validation
    [of "DSTORE_IO_OP_OTHER 9" "m0_stub 0" "(0, 0)"
        "\<lparr>dbufs = [[1]], svec = [1], ovec = [0], nr = 1, has_data = True\<rparr>" None "\<lparr>log = [], motr = 0\<rparr>"]
    cortx_ds_io_op_init_type_validation
    [of DSTORE_IO_OP_WRITE "m0_stub 0" "(0, 0)"
        "\<lparr>dbufs = [[1]], svec = [1], ovec = [0], nr = 1, has_data = True\<rparr>" None "\<lparr>log = [], motr = 0\<rparr>"]
    cortx_ds_io_op_init_type_validation
    [of DSTORE_IO_OP_FREE "m0_stub 0" "(0, 0)"
        "\<lparr>dbufs = [], svec = [1], ovec = [0], nr = 1, has_data = False\<rparr>" None "\<lparr>log = [], motr = 0\<rparr>"]
  by (simp add: m0_stub_def)

section \<open>Backend selection\<close>

lemma strncmp_eq_take: "strncmp_eq s1 s2 (length s1) \<longleftrightarrow> take (length s1) s2 = s1"
proof (induction s1 arbitrary: s2)
  case Nil
  show ?case by simp
next
  case (Cons x xs)
  show ?case by (cases s2) (auto simp: Cons.IH)
qed

text \<open>
  C5, as amended. With the key \<open>dstore.type\<close> missing, \<open>dstore_init\<close> returns
  \<open>-EINVAL\<close> and leaves the singleton as it was. With the value \<open>cortx\<close>, the
  registry name, it selects the \<open>cortx\<close> backend and returns what the backend's
  \<open>init\<close> returns. With a value that is not a leading part of the registry name, no
  backend is selected and the call does not return: the assertion on the operations
  table fails.
\<close>

theorem dstore_init_selection:
  "(cfg ''dstore'' ''type'' = (0, None) \<longrightarrow>
      dstore_init m0 cfg flags g s = (Ret (- EINVAL), g, s)) \<and>
   (cfg ''dstore'' ''type'' = (0, Some ''cortx'') \<longrightarrow>
      dstore_init m0 cfg flags g s =
        (Ret (fst (cortx_ds_init m0 cfg s)),
         \<lparr>ds_type = ''cortx'', ds_flags = flags, ds_ops = Some (cortx_dstore_ops m0)\<rparr>,
         snd (cortx_ds_init m0 cfg s))) \<and>
   (\<forall>v. cfg ''dstore'' ''type'' = (0, Some v) \<longrightarrow> take (length v) ''cortx'' \<noteq> v \<longrightarrow>
      fst (dstore_init m0 cfg flags g s) = AssertFail)"
proof (intro conjI impI allI)
  assume "cfg ''dstore'' ''type'' = (0, None)"
  then show "dstore_init m0 cfg flags g s = (Ret (- EINVAL), g, s)"
    by (simp add: dstore_init_def)
next
  assume "cfg ''dstore'' ''type'' = (0, Some ''cortx'')"
  then show "dstore_init m0 cfg flags g s =
        (Ret (fst (cortx_ds_init m0 cfg s)),
         \<lparr>ds_type = ''cortx'', ds_flags = flags, ds_ops = Some (cortx_dstore_ops m0)\<rparr>,
         snd (cortx_ds_init m0 cfg s))"
    by (simp add: dstore_init_def dstore_modules_def cortx_dstore_ops_def split: prod.splits)
next
  fix v
  assume c: "cfg ''dstore'' ''type'' = (0, Some v)" and n: "take (length v) ''cortx'' \<noteq> v"
  from n have "\<not> strncmp_eq v ''cortx'' (length v)"
    by (simp only: strncmp_eq_take not_False_eq_True)
  then have "find_module v (dstore_modules m0) = None"
    by (simp only: dstore_modules_def find_module.simps if_False)
  with c show "fst (dstore_init m0 cfg flags g s) = AssertFail"
    by (simp add: dstore_init_def)
qed

theorem dstore_init_selection_witness:
  "dstore_init (m0_stub 0) (\<lambda>sec key. (0, None)) 0
      \<lparr>ds_type = [], ds_flags = 0, ds_ops = None\<rparr> \<lparr>log = [], motr = 0\<rparr>
     = (Ret (- EINVAL), \<lparr>ds_type = [], ds_flags = 0, ds_ops = None\<rparr>, \<lparr>log = [], motr = 0\<rparr>) \<and>
   dstore_init (m0_stub 0) (\<lambda>sec key. (0, Some ''cortx'')) 0
      \<lparr>ds_type = [], ds_flags = 0, ds_ops = None\<rparr> \<lparr>log = [], motr = 0\<rparr>
     = (Ret 0, \<lparr>ds_type = ''cortx'', ds_flags = 0, ds_ops = Some (cortx_dstore_ops (m0_stub 0))\<rparr>,
        \<lparr>log = [], motr = 0\<rparr>) \<and>
   fst (dstore_init (m0_stub 0) (\<lambda>sec key. (0, Some ''motr'')) 0
      \<lparr>ds_type = [], ds_flags = 0, ds_ops = None\<rparr> \<lparr>log = [], motr = 0\<rparr>) = AssertFail"
  using dstore_init_selection
    [of "\<lambda>sec key. (0, None)" "m0_stub 0" 0 "\<lparr>ds_type = [], ds_flags = 0, ds_ops = None\<rparr>"
        "\<lparr>log = [], motr = 0\<rparr>"]
    dstore_init_selection
    [of "\<lambda>sec key. (0, Some ''cortx'')" "m0_stub 0" 0 "\<lparr>ds_type = [], ds_flags = 0, ds_ops = None\<rparr>"
        "\<lparr>log = [], motr = 0\<rparr>"]
    dstore_init_selection
    [of "\<lambda>sec key. (0, Some ''motr'')" "m0_stub 0" 0 "\<lparr>ds_type = [], ds_flags = 0, ds_ops = None\<rparr>"
        "\<lparr>log = [], motr = 0\<rparr>"]
  by (simp add: cortx_ds_init_def m0_stub_def)

text \<open>
  The claim as stated fails: the value \<open>bogus\<close> matches no registered backend, and
  \<open>dstore_init\<close> does not return \<open>-EINVAL\<close>.
\<close>

theorem dstore_init_unknown_type_counterexample:
  "fst (dstore_init (m0_stub 0) (\<lambda>sec key. (0, Some ''bogus'')) 0
      \<lparr>ds_type = [], ds_flags = 0, ds_ops = None\<rparr> \<lparr>log = [], motr = 0\<rparr>) \<noteq> Ret (- EINVAL)"
  by (simp add: dstore_init_def dstore_modules_def)

text \<open>
  The comparison is bounded by the length of the configured value, so a leading part of
  the registry name selects the backend as well.
\<close>

lemma dstore_init_prefix_example:
  "dstore_init (m0_stub 0) (\<lambda>sec key. (0, Some ''c'')) 0
      \<lparr>ds_type = [], ds_flags = 0, ds_ops = None\<rparr> \<lparr>log = [], motr = 0\<rparr>
   = (Ret 0, \<lparr>ds_type = ''c'', ds_flags = 0, ds_ops = Some (cortx_dstore_ops (m0_stub 0))\<rparr>,
        \<lparr>log = [], motr = 0\<rparr>)"
  by (simp add: dstore_init_def dstore_modules_def cortx_dstore_ops_def cortx_ds_init_def m0_stub_def)

section \<open>Failure while creating an operation\<close>

lemma init_and_submit_failure:
  assumes "dstore_io_op_init_and_submit ops obj bvec out t s = (rc, out', s')"
      and "rc \<noteq> 0"
      and "io_op_init ops obj t bvec None s = (rc1, result, s1)"
      and "io_op_submit ops result s1 = (rc2, s2)"
  shows "out' = out \<and>
         (if rc1 \<noteq> 0 then rc = rc1 \<and> s' = fini_result ops result s1
          else rc = rc2 \<and> s' = fini_result ops result s2)"
  using assms
  by (auto simp: dstore_io_op_init_and_submit_def split: if_splits)

text \<open>
  C9. Let \<open>dstore_io_op_write\<close> (\<open>t = WRITE\<close>) or \<open>dstore_io_op_read\<close>
  (\<open>t = READ\<close>) return a non-zero code \<open>rc\<close>. Then the caller's \<open>*out\<close> is what
  it was before the call. If \<open>io_op_init\<close> failed, \<open>rc\<close> is its code; otherwise
  \<open>rc\<close> is the code of \<open>io_op_submit\<close>. In both cases an operation that
  \<open>io_op_init\<close> had created is finalized by the backend's \<open>io_op_fini\<close>, as the
  last step before the return.
\<close>

theorem dstore_io_op_failure_atomic:
  assumes "t = DSTORE_IO_OP_WRITE \<or> t = DSTORE_IO_OP_READ"
      and "(if t = DSTORE_IO_OP_WRITE then dstore_io_op_write ops obj bvec out s
            else dstore_io_op_read ops obj bvec out s) = (rc, out', s')"
      and "rc \<noteq> 0"
      and "io_op_init ops obj t bvec None s = (rc1, result, s1)"
      and "io_op_submit ops result s1 = (rc2, s2)"
  shows "out' = out \<and>
         (rc1 \<noteq> 0 \<longrightarrow> rc = rc1 \<and>
            (case result of None \<Rightarrow> s' = s1 | Some op \<Rightarrow> s' = io_op_fini ops op s1)) \<and>
         (rc1 = 0 \<longrightarrow> rc = rc2 \<and>
            (case result of None \<Rightarrow> s' = s2 | Some op \<Rightarrow> s' = io_op_fini ops op s2))"
proof -
  from assms(1,2) have "dstore_io_op_init_and_submit ops obj bvec out t s = (rc, out', s')"
    by (auto simp: dstore_io_op_write_def dstore_io_op_read_def)
  from init_and_submit_failure [OF this assms(3-5)] show ?thesis
    by (auto simp: fini_result_def split: option.splits if_splits)
qed

theorem dstore_io_op_failure_atomic_witness:
  "dstore_io_op_write (trace_ops 0 (- 5) 0 0) (0, 0)
      \<lparr>dbufs = [[1]], svec = [1], ovec = [0], nr = 1, has_data = True\<rparr> (Some 42) []
     = (- 5, Some 42, [EvInit, EvSubmit, EvFini]) \<and>
   dstore_io_op_read (trace_ops (- 12) 0 0 0) (0, 0)
      \<lparr>dbufs = [[1]], svec = [1], ovec = [0], nr = 1, has_data = True\<rparr> None []
     = (- 12, None, [EvInit])"
proof -
  let ?v = "\<lparr>dbufs = [[1]], svec = [1], ovec = [0], nr = 1, has_data = True\<rparr>"
  obtain rc out' s' where w: "dstore_io_op_write (trace_ops 0 (- 5) 0 0) (0, 0) ?v (Some 42) [] = (rc, out', s')"
    by (cases "dstore_io_op_write (trace_ops 0 (- 5) 0 0) (0, 0) ?v (Some 42) []") auto
  have rcw: "rc \<noteq> 0"
    using w by (simp add: dstore_io_op_write_def dstore_io_op_init_and_submit_def trace_ops_def)
  have i1: "io_op_init (trace_ops 0 (- 5) 0 0) (0, 0) DSTORE_IO_OP_WRITE ?v None [] = (0, Some 0, [EvInit])"
    by (simp add: trace_ops_def)
  have s1: "io_op_submit (trace_ops 0 (- 5) 0 0) (Some 0) [EvInit] = (- 5, [EvInit, EvSubmit])"
    by (simp add: trace_ops_def)
  have a: "dstore_io_op_write (trace_ops 0 (- 5) 0 0) (0, 0) ?v (Some 42) [] = (- 5, Some 42, [EvInit, EvSubmit, EvFini])"
    using dstore_io_op_failure_atomic [of DSTORE_IO_OP_WRITE _ _ _ _ _ rc out' s', OF _ _ rcw i1 s1] w
    by (simp add: trace_ops_def)
  obtain rc out' s' where r: "dstore_io_op_read (trace_ops (- 12) 0 0 0) (0, 0) ?v None [] = (rc, out', s')"
    by (cases "dstore_io_op_read (trace_ops (- 12) 0 0 0) (0, 0) ?v None []") auto
  have rcr: "rc \<noteq> 0"
    using r by (simp add: dstore_io_op_read_def dstore_io_op_init_and_submit_def trace_ops_def)
  have i2: "io_op_init (trace_ops (- 12) 0 0 0) (0, 0) DSTORE_IO_OP_READ ?v None [] = (- 12, None, [EvInit])"
    by (simp add: trace_ops_def)
  have s2: "io_op_submit (trace_ops (- 12) 0 0 0) None [EvInit] = (0, [EvInit, EvSubmit])"
    by (simp add: trace_ops_def)
  have b: "dstore_io_op_read (trace_ops (- 12) 0 0 0) (0, 0) ?v None [] = (- 12, None, [EvInit])"
    using dstore_io_op_failure_atomic [of DSTORE_IO_OP_READ _ _ _ _ _ rc out' s', OF _ _ rcr i2 s2] r
    by simp
  from a b show ?thesis by simp
qed

section \<open>Alignment dispatch\<close>

text \<open>
  C6. For a block size \<open>0 < bs\<close>, \<open>dstore_pwrite\<close> is \<open>pwrite_aligned\<close> on the
  caller's buffer exactly when \<open>offset\<close> and \<open>count\<close> are both multiples of
  \<open>bs\<close>, and \<open>pwrite_unaligned\<close> otherwise; \<open>dstore_pread\<close> is the hole-tolerant
  aligned reader in the first case and \<open>pread_unaligned\<close> otherwise.
\<close>

theorem alignment_dispatch:
  assumes "0 < bs"
  shows "dstore_pwrite offset count bs buf w =
           (if bs dvd offset \<and> bs dvd count then pwrite_aligned buf 0 count offset w
            else pwrite_unaligned offset count bs buf w) \<and>
         dstore_pread offset count bs buf w =
           (if bs dvd offset \<and> bs dvd count
            then pread_aligned_handle_holes pread_aligned buf 0 count offset bs w
            else pread_unaligned offset count bs buf w)"
  by (auto simp: dstore_pwrite_def dstore_pwrite_inner_def dstore_pread_def dstore_pread_inner_def
                 mod_eq_0_iff_dvd)

theorem alignment_dispatch_witness:
  "dstore_pwrite 4096 8192 4096 [] (fresh_world 0) = pwrite_aligned [] 0 8192 4096 (fresh_world 0) \<and>
   dstore_pwrite 3000 100 4096 [] (fresh_world 0) = pwrite_unaligned 3000 100 4096 [] (fresh_world 0) \<and>
   dstore_pread 4096 8192 4096 [] (fresh_world 0)
     = pread_aligned_handle_holes pread_aligned [] 0 8192 4096 4096 (fresh_world 0) \<and>
   dstore_pread 4096 100 4096 [] (fresh_world 0) = pread_unaligned 4096 100 4096 [] (fresh_world 0)"
  using alignment_dispatch [of 4096 4096 8192 "[]" "fresh_world 0"]
    alignment_dispatch [of 4096 3000 100 "[]" "fresh_world 0"]
    alignment_dispatch [of 4096 4096 100 "[]" "fresh_world 0"]
  by simp

section \<open>Arithmetic without wrap-around\<close>

lemma to_int32_small: "n < 2 ^ 31 \<Longrightarrow> to_int32 n = int n"
  by (simp add: to_int32_def)

lemma u64_small: "n < 2 ^ 64 \<Longrightarrow> u64 n = n"
  by (simp add: u64_def)

lemma u32_small: "n < 2 ^ 32 \<Longrightarrow> u32 n = n"
  by (simp add: u32_def)

lemma wrap_sub_small:
  fixes a b N :: nat
  assumes "b \<le> a" and "a < N"
  shows "(a + N - b mod N) mod N = a - b"
proof -
  have "b mod N = b" using assms by simp
  moreover have "a + N - b = (a - b) + N" using assms by arith
  moreover have "((a - b) + N) mod N = a - b"
  proof -
    have l: "a - b < N" using assms by arith
    have "((a - b) + N) mod N = (a - b) mod N" by (rule mod_add_self2)
    also have "\<dots> = a - b" using l by (rule mod_less)
    finally show ?thesis .
  qed
  ultimately show ?thesis by (simp only:)
qed

lemma sub64_small: "b \<le> a \<Longrightarrow> a < 2 ^ 64 \<Longrightarrow> sub64 a b = a - b"
  unfolding sub64_def by (rule wrap_sub_small)

lemma sub32_small: "b \<le> a \<Longrightarrow> a < 2 ^ 32 \<Longrightarrow> sub32 a b = a - b"
  unfolding sub32_def by (rule wrap_sub_small)

lemma replicate_num: "replicate (numeral k) x = x # replicate (pred_numeral k) x"
  by (simp add: numeral_eq_Suc)

section \<open>The hole-tolerant read policy\<close>

lemma holes_loop_never_enoent:
  "fst (holes_loop pra bs pos offset count i read_buf s) \<noteq> - ENOENT"
proof (induction pra bs pos offset count i read_buf s rule: holes_loop.induct)
  case (1 pra bs pos offset count i read_buf s)
  show ?case
  proof (cases "int i < count")
    case False
    then show ?thesis by (simp add: holes_loop.simps [of pra bs pos offset count i] ENOENT_def)
  next
    case True
    obtain rc buf1 s1 where p: "pra read_buf (pos + i * bs) bs (u64 (offset + u64 (i * bs))) s = (rc, buf1, s1)"
      by (cases "pra read_buf (pos + i * bs) bs (u64 (offset + u64 (i * bs))) s") auto
    show ?thesis
      using True p "1.IH"(1) [OF True p [symmetric] refl] "1.IH"(2) [OF True p [symmetric] refl]
      by (auto simp: holes_loop.simps [of pra bs pos offset count i])
  qed
qed

lemma holes_loop_policy:
  assumes "\<And>j. j < k \<Longrightarrow> offset + j * bs < 2 ^ 64"
      and "i \<le> k"
  shows "holes_loop pra bs pos offset (int k) i read_buf s
         = hole_policy pra bs pos offset [i ..< k] read_buf s"
  using assms(2)
proof (induction "k - i" arbitrary: i read_buf s)
  case 0
  then show ?case by (subst holes_loop.simps) simp
next
  case (Suc d)
  then have lt: "i < k" and d: "d = k - Suc i" and le: "Suc i \<le> k" by auto
  have w: "u64 (offset + u64 (i * bs)) = offset + i * bs"
    using assms(1) [OF lt] by (simp add: u64_small)
  have up: "[i ..< k] = i # [Suc i ..< k]" using lt by (simp add: upt_conv_Cons)
  show ?case
    using lt Suc.hyps(1) [OF d le]
    by (simp add: holes_loop.simps [of pra bs pos offset "int k" i] w up split: prod.splits)
qed

text \<open>
  C3, as amended. Let \<open>k = buf_size div bs\<close> be fewer than \<open>2^31\<close> blocks and
  the request lie below \<open>2^64\<close>. A result of the initial aligned read other than
  \<open>-ENOENT\<close> is returned unchanged. After \<open>-ENOENT\<close> the blocks \<open>0, ..., k-1\<close>
  are read one by one, for every \<open>k\<close> (a single block included): a block whose read
  answers \<open>-ENOENT\<close> is zero-filled, another non-zero code is returned at once, and
  after the last block the call returns \<open>0\<close>. So \<open>-ENOENT\<close> never reaches the
  caller. The aligned read \<open>pra\<close> is arbitrary.
\<close>

theorem handle_holes_policy:
  assumes "0 < bs" and "buf_size div bs < 2 ^ 31" and "offset + buf_size < 2 ^ 64"
  shows "pread_aligned_handle_holes pra read_buf pos buf_size offset bs s =
           (case pra read_buf pos buf_size offset s of
              (rc, buf1, s1) \<Rightarrow>
                if rc = - ENOENT
                then hole_policy pra bs pos offset [0 ..< buf_size div bs] buf1 s1
                else (rc, buf1, s1)) \<and>
         fst (pread_aligned_handle_holes pra read_buf pos buf_size offset bs s) \<noteq> - ENOENT"
proof -
  have r: "\<And>j. j < buf_size div bs \<Longrightarrow> offset + j * bs < 2 ^ 64"
  proof -
    fix j assume "j < buf_size div bs"
    then have "j * bs \<le> (buf_size div bs) * bs" by simp
    also have "\<dots> \<le> buf_size" by simp
    finally show "offset + j * bs < 2 ^ 64" using assms(3) by simp
  qed
  have a: "pread_aligned_handle_holes pra read_buf pos buf_size offset bs s =
           (case pra read_buf pos buf_size offset s of
              (rc, buf1, s1) \<Rightarrow>
                if rc = - ENOENT
                then hole_policy pra bs pos offset [0 ..< buf_size div bs] buf1 s1
                else (rc, buf1, s1))"
    using holes_loop_policy [of "buf_size div bs" offset bs 0 pra pos, OF r]
    by (simp add: pread_aligned_handle_holes_def to_int32_small [OF assms(2)] split: prod.splits)
  have b: "fst (pread_aligned_handle_holes pra read_buf pos buf_size offset bs s) \<noteq> - ENOENT"
    using holes_loop_never_enoent [of pra bs pos offset]
    by (simp add: pread_aligned_handle_holes_def split: prod.splits)
  from a b show ?thesis by simp
qed

theorem handle_holes_policy_witness:
  "pread_aligned_handle_holes pread_aligned [1, 2, 3, 4] 0 4 0 2
     \<lparr>obj_data = (\<lambda>i. if 2 \<le> i \<and> i < 4 then Some 7 else None), io_rcs = [], heap_avail = 0\<rparr>
   = (0, [0, 0, 7, 7],
      \<lparr>obj_data = (\<lambda>i. if 2 \<le> i \<and> i < 4 then Some 7 else None), io_rcs = [], heap_avail = 0\<rparr>)"
  using handle_holes_policy [of 2 4 0 pread_aligned "[1, 2, 3, 4]" 0
      "\<lparr>obj_data = (\<lambda>i. if 2 \<le> i \<and> i < 4 then Some 7 else None), io_rcs = [], heap_avail = 0\<rparr>"]
  by (simp add: pread_aligned_def next_rc_def upt_rec memset_def memcpy_def ENOENT_def)

text \<open>
  The claim as stated fails for a single block: the aligned read of one block of a
  fresh object answers \<open>-ENOENT\<close>, and the hole-tolerant reader returns \<open>0\<close> with the
  block zero-filled.
\<close>

theorem handle_holes_single_block_counterexample:
  "fst (pread_aligned [1, 2, 3, 4] 0 4 0 (fresh_world 0)) = - ENOENT \<and>
   pread_aligned_handle_holes pread_aligned [1, 2, 3, 4] 0 4 0 4 (fresh_world 0)
     = (0, [0, 0, 0, 0], fresh_world 0)"
  by (simp add: pread_aligned_handle_holes_def pread_aligned_def fresh_world_def next_rc_def
      holes_loop.simps to_int32_def u64_def memset_def ENOENT_def upt_rec replicate_num)

section \<open>The requests of a resize\<close>

lemma zero_fill_append:
  "zero_fill (xs @ ys) bs w =
     (case zero_fill xs bs w of (rc, w') \<Rightarrow> if rc \<noteq> 0 then (rc, w') else zero_fill ys bs w')"
  by (induction xs arbitrary: w) (auto split: prod.splits)

lemma zero_fill_Cons:
  "zero_fill ((off, n) # reqs) bs w =
     (case dstore_pwrite off n bs (replicate DSAL_MAX_IO_SIZE 0) w of
        (rc, w') \<Rightarrow> if rc \<noteq> 0 then (rc, w') else zero_fill reqs bs w')"
  by (simp add: DSAL_MAX_IO_SIZE_def)

lemma shrink_requests_alt:
  "shrink_requests old_size new_size =
     map (\<lambda>i. (new_size + i * DSAL_MAX_IO_SIZE, DSAL_MAX_IO_SIZE))
       [0 ..< (old_size - new_size) div DSAL_MAX_IO_SIZE]
     @ (if (old_size - new_size) mod DSAL_MAX_IO_SIZE = 0 then []
        else [(new_size + ((old_size - new_size) div DSAL_MAX_IO_SIZE) * DSAL_MAX_IO_SIZE,
               (old_size - new_size) mod DSAL_MAX_IO_SIZE)])"
  by (simp add: shrink_requests_def DSAL_MAX_IO_SIZE_def)

lemma shrink_loop_zero_fill:
  assumes "\<And>i. i < nreq \<Longrightarrow> offset + i * DSAL_MAX_IO_SIZE < 2 ^ 64"
      and "index \<le> nreq"
      and "shrink_loop offset nreq bsize (replicate DSAL_MAX_IO_SIZE 0) 0 index w = (rc, idx, w')"
  shows "zero_fill (map (\<lambda>i. (offset + i * DSAL_MAX_IO_SIZE, DSAL_MAX_IO_SIZE)) [index ..< nreq]) bsize w
           = (rc, w') \<and>
         (rc = 0 \<longrightarrow> idx = nreq)"
  using assms(2,3)
proof (induction "nreq - index" arbitrary: index w)
  case 0
  then show ?case by (subst (asm) shrink_loop.simps) simp
next
  case (Suc d)
  then have lt: "index < nreq" and d: "d = nreq - Suc index" and le: "Suc index \<le> nreq" by auto
  have "index * DSAL_MAX_IO_SIZE < 2 ^ 64" using assms(1) [OF lt] by simp
  then have o: "u64 (offset + u64 (index * DSAL_MAX_IO_SIZE)) = offset + index * DSAL_MAX_IO_SIZE"
    using assms(1) [OF lt] by (simp add: u64_small)
  have up: "[index ..< nreq] = index # [Suc index ..< nreq]" using lt by (simp add: upt_conv_Cons)
  obtain rc1 w1 where p: "dstore_pwrite (offset + index * DSAL_MAX_IO_SIZE) DSAL_MAX_IO_SIZE bsize
                            (replicate DSAL_MAX_IO_SIZE 0) w = (rc1, w1)"
    by (cases "dstore_pwrite (offset + index * DSAL_MAX_IO_SIZE) DSAL_MAX_IO_SIZE bsize
                 (replicate DSAL_MAX_IO_SIZE 0) w") auto
  from Suc.prems(2) lt p
  have step: "(if rc1 \<noteq> 0 then (rc1, index, w1)
               else shrink_loop offset nreq bsize (replicate DSAL_MAX_IO_SIZE 0) rc1 (Suc index) w1)
              = (rc, idx, w')"
    by (subst (asm) shrink_loop.simps) (simp add: o)
  have z: "zero_fill (map (\<lambda>i. (offset + i * DSAL_MAX_IO_SIZE, DSAL_MAX_IO_SIZE)) [index ..< nreq]) bsize w
           = (if rc1 \<noteq> 0 then (rc1, w1)
              else zero_fill (map (\<lambda>i. (offset + i * DSAL_MAX_IO_SIZE, DSAL_MAX_IO_SIZE)) [Suc index ..< nreq])
                     bsize w1)"
    unfolding up using p by (simp add: zero_fill_Cons del: zero_fill.simps)
  show ?case
  proof (cases "rc1 = 0")
    case False
    with step have "rc1 = rc" and "w1 = w'" by simp_all
    with False z show ?thesis by simp
  next
    case True
    with step
    have "shrink_loop offset nreq bsize (replicate DSAL_MAX_IO_SIZE 0) 0 (Suc index) w1 = (rc, idx, w')"
      by simp
    from Suc.hyps(1) [OF d le this] True z show ?thesis
      by simp
  qed
qed

lemma shrink_full_cover:
  "(\<Union>i \<in> {..<q}. {a + i * m ..< a + i * m + m}) = {a ..< a + q * (m::nat)}"
proof (induction q)
  case 0
  show ?case by simp
next
  case (Suc q)
  have "(\<Union>i \<in> {..<Suc q}. {a + i * m ..< a + i * m + m})
        = (\<Union>i \<in> {..<q}. {a + i * m ..< a + i * m + m}) \<union> {a + q * m ..< a + q * m + m}"
    by (simp add: lessThan_Suc Un_commute)
  also have "\<dots> = {a ..< a + q * m} \<union> {a + q * m ..< a + q * m + m}"
    by (simp only: Suc.IH)
  also have "\<dots> = {a ..< a + Suc q * m}"
    by (auto simp: add.commute)
  finally show ?case .
qed

lemma shrink_requests_cover:
  assumes "new_size \<le> old_size"
  shows "(\<Union>(off, n) \<in> set (shrink_requests old_size new_size). {off ..< off + n})
         = {new_size ..< old_size}"
proof -
  define d where "d = old_size - new_size"
  define q where "q = d div DSAL_MAX_IO_SIZE"
  define r where "r = d mod DSAL_MAX_IO_SIZE"
  have dq: "d = q * DSAL_MAX_IO_SIZE + r" by (simp add: q_def r_def)
  have old: "old_size = new_size + q * DSAL_MAX_IO_SIZE + r" using assms dq by (simp add: d_def)
  have full: "(\<Union>(off, n) \<in> set (map (\<lambda>i. (new_size + i * DSAL_MAX_IO_SIZE, DSAL_MAX_IO_SIZE)) [0 ..< q]).
                 {off ..< off + n})
              = {new_size ..< new_size + q * DSAL_MAX_IO_SIZE}"
    using shrink_full_cover [of new_size DSAL_MAX_IO_SIZE q] by (simp add: atLeast0LessThan)
  have req: "shrink_requests old_size new_size =
               map (\<lambda>i. (new_size + i * DSAL_MAX_IO_SIZE, DSAL_MAX_IO_SIZE)) [0 ..< q]
               @ (if r = 0 then [] else [(new_size + q * DSAL_MAX_IO_SIZE, r)])"
    by (simp only: shrink_requests_alt d_def q_def r_def)
  show ?thesis
  proof (cases "r = 0")
    case True
    have "(\<Union>(off, n) \<in> set (shrink_requests old_size new_size). {off ..< off + n})
          = {new_size ..< new_size + q * DSAL_MAX_IO_SIZE}"
      unfolding req using True full by simp
    then show ?thesis using old True by simp
  next
    case False
    have "(\<Union>(off, n) \<in> set (shrink_requests old_size new_size). {off ..< off + n})
          = {new_size ..< new_size + q * DSAL_MAX_IO_SIZE}
            \<union> {new_size + q * DSAL_MAX_IO_SIZE ..< new_size + q * DSAL_MAX_IO_SIZE + r}"
      unfolding req using False full by (simp add: Un_commute)
    also have "\<dots> = {new_size ..< old_size}" using old by auto
    finally show ?thesis .
  qed
qed

text \<open>
  The requests of a resize. Let \<open>old_size\<close> be a \<open>size_t\<close> value, \<open>b\<close> the
  block size that \<open>dstore_get_bsize\<close> reports (not zero: the writes divide by it), and
  the scratch buffer of \<open>2^20\<close> bytes be allocated. With \<open>old_size \<le> new_size\<close>,
  \<open>dstore_obj_resize\<close> returns \<open>0\<close> and leaves the state as it is (no IO, nothing
  consumed). With \<open>new_size < old_size\<close> it is the execution of \<open>shrink_requests\<close>
  in order: \<open>(old_size - new_size) div 2^20\<close> writes of \<open>2^20\<close> zero bytes at
  \<open>new_size + i * 2^20\<close>, then one write of the remainder if there is one, each
  through \<open>dstore_pwrite\<close>, ended by the first non-zero return code; and the
  requested ranges cover exactly \<open>[new_size, old_size)\<close>. Which bytes of the stored
  object each of these writes changes is a matter of \<open>dstore_pwrite\<close>; the section on
  concrete inputs shows a resize that zeroes bytes outside \<open>[new_size, old_size)\<close>.
\<close>

theorem dstore_obj_resize_requests:
  assumes "old_size < 2 ^ 64"
      and "dstore_get_bsize ops oid w = (b, w0)"
      and "DSAL_MAX_IO_SIZE \<le> heap_avail w0"
      and "0 < to_size_t b"
  shows "(old_size \<le> new_size \<longrightarrow> dstore_obj_resize ops oid old_size new_size w = (0, w)) \<and>
         (new_size < old_size \<longrightarrow>
            dstore_obj_resize ops oid old_size new_size w
              = zero_fill (shrink_requests old_size new_size) (to_size_t b) w0 \<and>
            (\<Union>(off, n) \<in> set (shrink_requests old_size new_size). {off ..< off + n})
              = {new_size ..< old_size})"
proof (intro conjI impI)
  assume "old_size \<le> new_size"
  then show "dstore_obj_resize ops oid old_size new_size w = (0, w)"
    by (simp add: dstore_obj_resize_def)
next
  assume "new_size < old_size"
  then show "(\<Union>(off, n) \<in> set (shrink_requests old_size new_size). {off ..< off + n})
              = {new_size ..< old_size}"
    by (intro shrink_requests_cover) simp
next
  assume lt: "new_size < old_size"
  define d where "d = old_size - new_size"
  define q where "q = d div DSAL_MAX_IO_SIZE"
  define r where "r = d mod DSAL_MAX_IO_SIZE"
  define bs where "bs = to_size_t b"
  have dq: "d = q * DSAL_MAX_IO_SIZE + r" by (simp add: q_def r_def)
  have old: "old_size = new_size + q * DSAL_MAX_IO_SIZE + r" using lt dq by (simp add: d_def)
  have dlt: "d < 2 ^ 64" using assms(1) by (simp add: d_def)
  have cnt: "sub64 old_size new_size = d"
    using lt assms(1) by (simp add: sub64_small d_def)
  have qm: "q * DSAL_MAX_IO_SIZE \<le> d" using dq by simp
  have tail: "sub64 d (u64 (q * DSAL_MAX_IO_SIZE)) = r"
  proof -
    have "u64 (q * DSAL_MAX_IO_SIZE) = q * DSAL_MAX_IO_SIZE" using qm dlt by (simp add: u64_small)
    then show ?thesis using qm dlt dq by (simp add: sub64_small)
  qed
  have rng: "\<And>i. i < q \<Longrightarrow> new_size + i * DSAL_MAX_IO_SIZE < 2 ^ 64"
  proof -
    fix i assume "i < q"
    then have "i * DSAL_MAX_IO_SIZE \<le> q * DSAL_MAX_IO_SIZE" by (intro mult_le_mono1) simp
    then show "new_size + i * DSAL_MAX_IO_SIZE < 2 ^ 64" using old assms(1) by linarith
  qed
  have "q * DSAL_MAX_IO_SIZE < 2 ^ 64" using qm dlt by simp
  then have lastoff: "u64 (new_size + u64 (q * DSAL_MAX_IO_SIZE)) = new_size + q * DSAL_MAX_IO_SIZE"
    using old assms(1) by (simp add: u64_small)
  obtain rc idx w1 where sl: "shrink_loop new_size q bs (replicate DSAL_MAX_IO_SIZE 0) 0 0 w0 = (rc, idx, w1)"
    by (cases "shrink_loop new_size q bs (replicate DSAL_MAX_IO_SIZE 0) 0 0 w0") auto
  from shrink_loop_zero_fill [OF rng _ sl]
  have zf: "zero_fill (map (\<lambda>i. (new_size + i * DSAL_MAX_IO_SIZE, DSAL_MAX_IO_SIZE)) [0 ..< q]) bs w0 = (rc, w1)"
    and idx: "rc = 0 \<longrightarrow> idx = q" by simp_all
  have shr: "dstore_obj_shrink ops oid old_size new_size w
             = (if rc \<noteq> 0 then (rc, w1)
                else if r \<noteq> 0
                then dstore_pwrite (new_size + q * DSAL_MAX_IO_SIZE) r bs (replicate DSAL_MAX_IO_SIZE 0) w1
                else (rc, w1))"
    using assms(2,3) sl idx lastoff
    by (simp add: dstore_obj_shrink_def Let_def calloc_ok_def cnt tail bs_def [symmetric]
        q_def [symmetric])
  have req: "shrink_requests old_size new_size =
               map (\<lambda>i. (new_size + i * DSAL_MAX_IO_SIZE, DSAL_MAX_IO_SIZE)) [0 ..< q]
               @ (if r = 0 then [] else [(new_size + q * DSAL_MAX_IO_SIZE, r)])"
    by (simp only: shrink_requests_alt d_def q_def r_def)
  have "zero_fill (shrink_requests old_size new_size) bs w0
        = (if rc \<noteq> 0 then (rc, w1)
           else if r \<noteq> 0
           then dstore_pwrite (new_size + q * DSAL_MAX_IO_SIZE) r bs (replicate DSAL_MAX_IO_SIZE 0) w1
           else (rc, w1))"
    unfolding req using zf
    by (simp add: zero_fill_append zero_fill_Cons del: zero_fill.simps(2) split: prod.splits)
  with shr lt show "dstore_obj_resize ops oid old_size new_size w
              = zero_fill (shrink_requests old_size new_size) (to_size_t b) w0"
    by (simp add: dstore_obj_resize_def bs_def)
qed

theorem dstore_obj_resize_requests_witness:
  "dstore_obj_resize (world_ops 4096) (0, 0) 3000 3000 (fresh_world (2 ^ 20)) = (0, fresh_world (2 ^ 20)) \<and>
   dstore_obj_resize (world_ops 4096) (0, 0) 3000 0 (fresh_world (2 ^ 20))
     = zero_fill [(0, 3000)] 4096 (fresh_world (2 ^ 20))"
  using dstore_obj_resize_requests [of 3000 "world_ops 4096" "(0, 0)" "fresh_world (2 ^ 20)" 4096
      "fresh_world (2 ^ 20)" 3000]
    dstore_obj_resize_requests [of 3000 "world_ops 4096" "(0, 0)" "fresh_world (2 ^ 20)" 4096
      "fresh_world (2 ^ 20)" 0]
  by (simp add: dstore_get_bsize_def dstore_get_bsize_inner_def world_ops_def to_size_t_def
      to_ssize_t_def DSAL_MAX_IO_SIZE_def fresh_world_def shrink_requests_def)

section \<open>Positional IO and resize on concrete inputs\<close>

lemmas io_eval =
  dstore_pwrite_def dstore_pwrite_inner_def dstore_pread_def dstore_pread_inner_def
  pwrite_unaligned_def pread_unaligned_def pread_unaligned_cont_def pread_unaligned_right_def
  pread_aligned_handle_holes_def pread_aligned_def pwrite_aligned_def holes_loop.simps
  fresh_world_def next_rc_def calloc_ok_def memcpy_def memset_def
  u32_def u64_def sub32_def sub64_def to_int32_def ENOENT_def ENOMEM_def
  Let_def upt_rec replicate_num

text \<open>
  C2 does not hold of the code. With block size 4, the block \<open>[1, 2, 3, 4]\<close> is
  written at offset 0; then two bytes \<open>[9, 9]\<close> are written at offset 0. Both writes
  succeed. The second one starts on a block boundary and ends inside the same block:
  \<open>pwrite_unaligned\<close> reads neither edge (the left edge is aligned, and the right
  edge is skipped because the left and right block coincide), so the scratch block of
  zeroes overwrites bytes 2 and 3, which lie outside \<open>[0, 2)\<close>: the block reads
  back as \<open>[9, 9, 0, 0]\<close>, not \<open>[9, 9, 3, 4]\<close>.
\<close>

theorem pwrite_frame_failing_input:
  "fst (dstore_pwrite 0 4 4 [1, 2, 3, 4] (fresh_world 64)) = 0 \<and>
   fst (dstore_pwrite 0 2 4 [9, 9] (snd (dstore_pwrite 0 4 4 [1, 2, 3, 4] (fresh_world 64)))) = 0 \<and>
   fst (snd (dstore_pread 0 4 4 [0, 0, 0, 0] (snd (dstore_pwrite 0 4 4 [1, 2, 3, 4] (fresh_world 64)))))
     = [1, 2, 3, 4] \<and>
   fst (snd (dstore_pread 0 4 4 [0, 0, 0, 0]
     (snd (dstore_pwrite 0 2 4 [9, 9] (snd (dstore_pwrite 0 4 4 [1, 2, 3, 4] (fresh_world 64)))))))
     = [9, 9, 0, 0]"
  by (simp add: io_eval)





text \<open>
  C1 does not hold of the code. With block size 2, three bytes \<open>[1, 2, 3]\<close> are
  written at offset \<open>2^33\<close>, block number \<open>2^32\<close>. The write is unaligned, and
  \<open>pwrite_unaligned\<close> keeps the block number in a \<open>uint32_t\<close>: it becomes 0 and
  the data is stored at offset 0. The read of the same range starts on a block boundary
  and takes the aligned run from the untruncated \<open>offset\<close>: it succeeds and yields
  zeroes. The data is read back at offset 0.
\<close>

theorem pwrite_pread_failing_input:
  "fst (dstore_pwrite (2 ^ 33) 3 2 [1, 2, 3] (fresh_world 64)) = 0 \<and>
   fst (dstore_pread (2 ^ 33) 3 2 [7, 7, 7] (snd (dstore_pwrite (2 ^ 33) 3 2 [1, 2, 3] (fresh_world 64)))) = 0 \<and>
   fst (snd (dstore_pread (2 ^ 33) 3 2 [7, 7, 7] (snd (dstore_pwrite (2 ^ 33) 3 2 [1, 2, 3] (fresh_world 64)))))
     = [0, 0, 0] \<and>
   fst (snd (dstore_pread 0 3 2 [7, 7, 7] (snd (dstore_pwrite (2 ^ 33) 3 2 [1, 2, 3] (fresh_world 64)))))
     = [1, 2, 3]"
  by (simp add: io_eval)

section \<open>Properties of the IO primitives\<close>

lemma length_memcpy:
  "dpos + n \<le> length dst \<Longrightarrow> spos + n \<le> length src \<Longrightarrow> length (memcpy dst dpos src spos n) = length dst"
  by (simp add: memcpy_def)

lemma length_memset:
  "dpos + n \<le> length dst \<Longrightarrow> length (memset dst dpos c n) = length dst"
  by (simp add: memset_def)

lemma nth_memcpy:
  assumes "dpos + n \<le> length dst" and "spos + n \<le> length src" and "i < length dst"
  shows "memcpy dst dpos src spos n ! i =
           (if dpos \<le> i \<and> i < dpos + n then src ! (spos + (i - dpos)) else dst ! i)"
proof -
  have m1: "min (length dst) dpos = dpos" using assms(1) by simp
  have m2: "min (length src - spos) n = n" using assms(2) by simp
  consider "i < dpos" | "dpos \<le> i" "i < dpos + n" | "dpos + n \<le> i" by linarith
  then show ?thesis
  proof cases
    case 1
    then show ?thesis by (simp add: memcpy_def nth_append m1)
  next
    case 2
    then have "i - dpos < n" by arith
    with 2 show ?thesis using assms(2) by (simp add: memcpy_def nth_append m1 m2)
  next
    case 3
    then have a: "\<not> i < dpos" and b: "\<not> i - dpos < n" by arith+
    have c: "dpos + n + (i - (dpos + n)) = i" using 3 by arith
    from 3 a b c show ?thesis using assms(1,3) by (simp add: memcpy_def nth_append m1 m2)
  qed
qed

lemma length_obj_bytes: "length (obj_bytes w offset n) = n"
  by (simp add: obj_bytes_def)

lemma nth_obj_bytes: "i < n \<Longrightarrow> obj_bytes w offset n ! i = the (obj_data w (offset + i))"
  by (simp add: obj_bytes_def)

lemma present_iff: "present w offset n \<longleftrightarrow> (\<forall>i. offset \<le> i \<and> i < offset + n \<longrightarrow> obj_data w i \<noteq> None)"
  by (auto simp: present_def list_all_iff)

lemma next_rc_props:
  assumes "next_rc w = (f, w')"
  shows "obj_data w' = obj_data w" and "heap_avail w' = heap_avail w"
    and "faults_ok w \<Longrightarrow> faults_ok w' \<and> f \<le> 0 \<and> f \<noteq> - ENOENT"
  using assms
  by (auto simp: next_rc_def faults_ok_def ENOENT_def split: list.splits)

lemma pread_aligned_props:
  assumes "pread_aligned buf pos n offset w = (rc, buf', w')"
  shows "obj_data w' = obj_data w" and "heap_avail w' = heap_avail w"
    and "faults_ok w \<Longrightarrow> faults_ok w' \<and> rc \<le> 0"
    and "pos + n \<le> length buf \<Longrightarrow> length buf' = length buf"
    and "faults_ok w \<Longrightarrow> present w offset n \<Longrightarrow> rc \<noteq> - ENOENT"
    and "rc = 0 \<Longrightarrow> present w offset n \<and> buf' = memcpy buf pos (obj_bytes w offset n) 0 n"
proof -
  obtain f w1 where n: "next_rc w = (f, w1)" by (cases "next_rc w") auto
  note p = next_rc_props [OF n]
  from assms n p(1,2) show "obj_data w' = obj_data w" and "heap_avail w' = heap_avail w"
    by (auto simp: pread_aligned_def split: if_splits)
  from assms n p(1) show "rc = 0 \<Longrightarrow> present w offset n \<and> buf' = memcpy buf pos (obj_bytes w offset n) 0 n"
    by (auto simp: pread_aligned_def present_def obj_bytes_def ENOENT_def split: if_splits)
  from assms n show "pos + n \<le> length buf \<Longrightarrow> length buf' = length buf"
    by (auto simp: pread_aligned_def length_memcpy split: if_splits)
  from assms n p show "faults_ok w \<Longrightarrow> faults_ok w' \<and> rc \<le> 0"
    by (auto simp: pread_aligned_def ENOENT_def split: if_splits)
  from assms n p show "faults_ok w \<Longrightarrow> present w offset n \<Longrightarrow> rc \<noteq> - ENOENT"
    by (auto simp: pread_aligned_def present_def split: if_splits)
qed

lemma pwrite_aligned_props:
  assumes "pwrite_aligned buf pos n offset w = (rc, w')"
  shows "heap_avail w' = heap_avail w"
    and "faults_ok w \<Longrightarrow> faults_ok w' \<and> rc \<le> 0"
    and "rc = 0 \<Longrightarrow> obj_data w' =
           (\<lambda>i. if offset \<le> i \<and> i < offset + n \<and> pos + (i - offset) < length buf
                then Some (buf ! (pos + (i - offset))) else obj_data w i)"
    and "rc \<noteq> 0 \<Longrightarrow> obj_data w' = obj_data w"
proof -
  obtain f w1 where n: "next_rc w = (f, w1)" by (cases "next_rc w") auto
  note p = next_rc_props [OF n]
  from assms n p show "heap_avail w' = heap_avail w"
    and "faults_ok w \<Longrightarrow> faults_ok w' \<and> rc \<le> 0"
    and "rc = 0 \<Longrightarrow> obj_data w' =
           (\<lambda>i. if offset \<le> i \<and> i < offset + n \<and> pos + (i - offset) < length buf
                then Some (buf ! (pos + (i - offset))) else obj_data w i)"
    and "rc \<noteq> 0 \<Longrightarrow> obj_data w' = obj_data w"
    by (auto simp: pwrite_aligned_def fun_eq_iff faults_ok_def split: if_splits)
qed

lemma holes_loop_props:
  assumes "holes_loop pread_aligned bs pos offset cnt i buf w = (rc, buf', w')"
  shows "obj_data w' = obj_data w \<and> heap_avail w' = heap_avail w \<and>
         (faults_ok w \<longrightarrow> faults_ok w' \<and> rc \<le> 0) \<and>
         ((\<forall>j. int j < cnt \<longrightarrow> pos + j * bs + bs \<le> length buf) \<longrightarrow> length buf' = length buf)"
  using assms
proof (induction pread_aligned bs pos offset cnt i buf w rule: holes_loop.induct)
  case (1 bs pos offset cnt i buf w)
  show ?case
  proof (cases "int i < cnt")
    case False
    with "1.prems" show ?thesis by (subst (asm) holes_loop.simps) simp
  next
    case True
    obtain rc1 buf1 w1 where p: "pread_aligned buf (pos + i * bs) bs (u64 (offset + u64 (i * bs))) w = (rc1, buf1, w1)"
      by (cases "pread_aligned buf (pos + i * bs) bs (u64 (offset + u64 (i * bs))) w") auto
    note pp = pread_aligned_props [OF p]
    have len1: "(\<forall>j. int j < cnt \<longrightarrow> pos + j * bs + bs \<le> length buf) \<Longrightarrow> length buf1 = length buf"
      using pp(4) True by auto
    from "1.prems" True p
    have step: "(if rc1 \<noteq> 0 then
                   (if rc1 = - ENOENT
                    then holes_loop pread_aligned bs pos offset cnt (Suc i) (memset buf1 (pos + i * bs) 0 bs) w1
                    else (rc1, buf1, w1))
                 else holes_loop pread_aligned bs pos offset cnt (Suc i) buf1 w1) = (rc, buf', w')"
      by (subst (asm) holes_loop.simps) simp
    show ?thesis
    proof (cases "rc1 = 0")
      case z: True
      with step have "holes_loop pread_aligned bs pos offset cnt (Suc i) buf1 w1 = (rc, buf', w')" by simp
      from "1.hyps"(2) [OF True p [symmetric] refl _ this] z
      show ?thesis using pp(1,2,3) len1 by auto
    next
      case nz: False
      show ?thesis
      proof (cases "rc1 = - ENOENT")
        case False
        with nz step pp True show ?thesis by auto
      next
        case e: True
        with nz step
        have "holes_loop pread_aligned bs pos offset cnt (Suc i) (memset buf1 (pos + i * bs) 0 bs) w1 = (rc, buf', w')"
          by simp
        from "1.hyps"(1) [OF True p [symmetric] refl nz e this]
        show ?thesis using pp(1,2,3) len1 True by (auto simp: length_memset)
      qed
    qed
  qed
qed

lemma to_int32_le: "to_int32 m \<le> int m"
proof -
  have "m mod 4294967296 \<le> m" by (rule mod_less_eq_dividend)
  then show ?thesis by (auto simp: to_int32_def)
qed

lemma handle_holes_props:
  assumes "pread_aligned_handle_holes pread_aligned buf pos n offset bs w = (rc, buf', w')"
  shows "obj_data w' = obj_data w" and "heap_avail w' = heap_avail w"
    and "faults_ok w \<Longrightarrow> faults_ok w' \<and> rc \<le> 0"
    and "pos + n \<le> length buf \<Longrightarrow> 0 < bs \<Longrightarrow> length buf' = length buf"
    and "faults_ok w \<Longrightarrow> present w offset n \<Longrightarrow> rc = 0 \<Longrightarrow>
           buf' = memcpy buf pos (obj_bytes w offset n) 0 n"
proof -
  obtain rc0 b0 w0 where p: "pread_aligned buf pos n offset w = (rc0, b0, w0)"
    by (cases "pread_aligned buf pos n offset w") auto
  note pp = pread_aligned_props [OF p]
  have res: "(if rc0 = - ENOENT
              then holes_loop pread_aligned bs pos offset (to_int32 (n div bs)) 0 b0 w0
              else (rc0, b0, w0)) = (rc, buf', w')"
    using assms p by (simp add: pread_aligned_handle_holes_def)
  have loop: "rc0 = - ENOENT \<Longrightarrow>
      obj_data w' = obj_data w0 \<and> heap_avail w' = heap_avail w0 \<and>
      (faults_ok w0 \<longrightarrow> faults_ok w' \<and> rc \<le> 0) \<and>
      ((\<forall>j. int j < to_int32 (n div bs) \<longrightarrow> pos + j * bs + bs \<le> length b0) \<longrightarrow> length buf' = length b0)"
    using res holes_loop_props [of bs pos offset "to_int32 (n div bs)" 0 b0 w0 rc buf' w'] by simp
  show "obj_data w' = obj_data w" and "heap_avail w' = heap_avail w"
    using res loop pp(1,2) by (auto split: if_splits)
  show "faults_ok w \<Longrightarrow> faults_ok w' \<and> rc \<le> 0"
    using res loop pp(3) by (auto split: if_splits)
  show "faults_ok w \<Longrightarrow> present w offset n \<Longrightarrow> rc = 0 \<Longrightarrow>
           buf' = memcpy buf pos (obj_bytes w offset n) 0 n"
    using res pp(5,6) by (auto split: if_splits)
  show "length buf' = length buf" if len: "pos + n \<le> length buf" and bs: "0 < bs"
  proof (cases "rc0 = - ENOENT")
    case False
    with res pp(4) len show ?thesis by auto
  next
    case True
    have "pos + j * bs + bs \<le> length b0" if "int j < to_int32 (n div bs)" for j
    proof -
      from that to_int32_le [of "n div bs"] have "j < n div bs" by linarith
      then have "Suc j \<le> n div bs" by simp
      then have "Suc j * bs \<le> (n div bs) * bs" by (intro mult_le_mono1)
      also have "\<dots> \<le> n" by simp
      finally have "j * bs + bs \<le> n" by simp
      with len pp(4) show ?thesis by simp
    qed
    with loop [OF True] pp(4) len show ?thesis by simp
  qed
qed

lemma div_round_up:
  fixes e bs :: nat
  assumes "0 < bs"
  shows "(e + bs - 1) div bs = (if e mod bs = 0 then e div bs else e div bs + 1)"
proof -
  define q where "q = e div bs"
  define r where "r = e mod bs"
  have er: "e = q * bs + r" by (simp add: q_def r_def)
  have rb: "r < bs" using assms by (simp add: r_def)
  show ?thesis
  proof (cases "r = 0")
    case True
    define k where "k = bs - 1"
    have kb: "k < bs" using assms by (simp add: k_def)
    have "e + bs - 1 = k + q * bs" using er True assms by (simp add: k_def)
    moreover have "(k + q * bs) div bs = q" using kb by simp
    ultimately show ?thesis using True by (simp add: q_def r_def)
  next
    case False
    define k where "k = r - 1"
    have kb: "k < bs" using rb by (simp add: k_def)
    have "e + bs - 1 = k + (q + 1) * bs" using er False by (simp add: k_def algebra_simps)
    moreover have "(k + (q + 1) * bs) div bs = q + 1" using kb by (simp del: add_Suc_right)
    ultimately show ?thesis using False by (simp add: q_def r_def)
  qed
qed

lemma unaligned_blocks:
  fixes offset count bs :: nat
  assumes "0 < bs" and "(offset + count) div bs + 1 < 2 ^ 32"
      and "offset + count + bs < 2 ^ 64"
      and "\<not> (count mod bs = 0 \<and> offset mod bs = 0)"
  defines "e \<equiv> offset + count"
      and "L \<equiv> offset div bs"
  defines "R \<equiv> (if e mod bs = 0 then e div bs - 1 else e div bs)"
  shows "L \<le> R" and "R + 1 < 2 ^ 32" and "(R + 1) * bs < 2 ^ 64"
    and "e \<le> (R + 1) * bs" and "L * bs \<le> offset" and "e mod bs = 0 \<Longrightarrow> 1 \<le> e div bs"
    and "(R + 1) * bs = ((offset + count + bs - 1) div bs) * bs"
    and "R * bs < e"
proof -
  define ro where "ro = offset mod bs"
  define qe where "qe = e div bs"
  define re where "re = e mod bs"
  have off: "offset = L * bs + ro" by (simp add: L_def ro_def)
  have ee: "e = qe * bs + re" by (simp add: qe_def re_def)
  have reb: "re < bs" using assms(1) by (simp add: re_def)
  have oe: "offset \<le> e" by (simp add: e_def)
  show Lbs: "L * bs \<le> offset" using off by simp
  have Le: "L \<le> qe" unfolding L_def qe_def using oe by (rule div_le_mono)
  have pos: "L < qe" if m: "re = 0"
  proof -
    have "ro \<noteq> 0"
    proof
      assume z: "ro = 0"
      have "count = e - offset" by (simp add: e_def)
      also have "\<dots> = qe * bs - L * bs" using ee off m z by simp
      also have "\<dots> = (qe - L) * bs" by (simp add: diff_mult_distrib)
      finally have "count mod bs = 0" by simp
      with z assms(4) show False by (simp add: ro_def)
    qed
    then have "L * bs < offset" using off by simp
    also have "offset \<le> qe * bs" using oe ee m by simp
    finally show ?thesis by simp
  qed
  have Rq: "R = (if re = 0 then qe - 1 else qe)" by (simp add: R_def qe_def re_def)
  show "L \<le> R" using Le pos by (auto simp: Rq)
  show "e mod bs = 0 \<Longrightarrow> 1 \<le> e div bs" using pos by (simp add: re_def qe_def)
  have R1: "R + 1 = (if re = 0 then qe else qe + 1)" using pos by (auto simp: Rq)
  have "R + 1 \<le> qe + 1" by (simp add: Rq)
  then show "R + 1 < 2 ^ 32" using assms(2) unfolding qe_def e_def by linarith
  define H where "H = (R + 1) * bs"
  have H: "H = (if re = 0 then qe * bs else qe * bs + bs)" unfolding H_def R1 by simp
  have eH: "e \<le> H" using ee reb by (simp add: H)
  then show "e \<le> (R + 1) * bs" by (simp only: H_def)
  have "H \<le> e + bs" using ee by (simp add: H)
  then have "H < 2 ^ 64" using assms(3) unfolding e_def by linarith
  then show "(R + 1) * bs < 2 ^ 64" by (simp only: H_def)
  have "(e + bs - 1) div bs = R + 1"
    unfolding R1 re_def qe_def by (rule div_round_up [OF assms(1)])
  then show "(R + 1) * bs = ((offset + count + bs - 1) div bs) * bs"
    unfolding e_def by (simp only:)
  have HR: "H = R * bs + bs" by (simp add: H_def)
  show "R * bs < e"
  proof (cases "re = 0")
    case True
    then have "H = e" using ee by (simp add: H)
    then show ?thesis using assms(1) HR by linarith
  next
    case False
    then have "R = qe" by (simp add: Rq)
    then show ?thesis using ee False by simp
  qed
qed

lemma pwrite_unaligned_in_range:
  fixes offset count bs :: nat
  assumes bs: "0 < bs" and bs32: "bs < 2 ^ 32" and blk: "(offset + count) div bs + 1 < 2 ^ 32"
      and rng: "offset + count + bs < 2 ^ 64"
      and un: "\<not> (count mod bs = 0 \<and> offset mod bs = 0)"
  defines "e \<equiv> offset + count"
      and "L \<equiv> offset div bs"
  defines "R \<equiv> (if e mod bs = 0 then e div bs - 1 else e div bs)"
  defines "N \<equiv> R - L + 1"
  shows "pwrite_unaligned offset count bs buf w =
     (if \<not> calloc_ok w (N * bs) then (- ENOMEM, w)
      else (case (if offset mod bs \<noteq> 0
                  then pread_aligned_handle_holes pread_aligned (replicate (N * bs) 0) 0 bs (L * bs) bs w
                  else (0, replicate (N * bs) 0, w)) of
              (rc1, t1, wa) \<Rightarrow>
                if rc1 < 0 then (rc1, wa)
                else (case (if e mod bs \<noteq> 0 \<and> L \<noteq> R
                            then pread_aligned_handle_holes pread_aligned t1 ((N - 1) * bs) bs (R * bs) bs wa
                            else (rc1, t1, wa)) of
                        (rc2, t2, wb) \<Rightarrow>
                          if rc2 < 0 then (rc2, wb)
                          else pwrite_aligned (memcpy t2 (offset mod bs) buf 0 count) 0 (N * bs) (L * bs) wb)))"
proof -
  note ub = unaligned_blocks [OF bs blk rng un, folded e_def L_def, folded R_def]
  have e64: "e < 2 ^ 64" using rng by (simp add: e_def)
  have f1: "u64 (offset + count) = e" using e64 by (simp add: u64_small e_def)
  have "e div bs < 2 ^ 32" using blk by (simp add: e_def)
  then have f3: "u32 (e div bs) = e div bs" by (rule u32_small)
  have "L \<le> e div bs" unfolding L_def e_def by (intro div_le_mono) simp
  then have "L < 2 ^ 32" using \<open>e div bs < 2 ^ 32\<close> by linarith
  then have f2: "u32 (offset div bs) = L" by (simp add: u32_small L_def)
  have f4: "e mod bs = 0 \<Longrightarrow> sub32 (e div bs) 1 = R"
    using ub(6) \<open>e div bs < 2 ^ 32\<close> by (simp add: R_def sub32_small)
  have f4': "e mod bs \<noteq> 0 \<Longrightarrow> e div bs = R"
    by (simp add: R_def)
  have R32: "R < 2 ^ 32" using ub(2) by linarith
  have f3': "u32 R = R" using R32 by (rule u32_small)
  have N32: "N < 2 ^ 32" using ub(1,2) by (simp add: N_def)
  have f5: "u32 (sub32 R L + 1) = N"
    using ub(1) R32 N32 by (simp add: sub32_small u32_small N_def)
  have Nbs: "N * bs \<le> (R + 1) * bs" using ub(1) by (intro mult_le_mono1) (simp add: N_def)
  then have "N * bs < 2 ^ 64" using ub(3) by linarith
  then have f6: "u64 (N * bs) = N * bs" by (rule u64_small)
  have "L * bs < 2 ^ 64" using ub(5) rng by linarith
  then have f7: "u64 (L * bs) = L * bs" by (rule u64_small)
  have f8: "sub32 N 1 = N - 1" using N32 by (simp add: sub32_small N_def)
  have "(N - 1) * bs \<le> N * bs" by (intro mult_le_mono1) simp
  then have "(N - 1) * bs < 2 ^ 64" using \<open>N * bs < 2 ^ 64\<close> by linarith
  then have f9: "u64 ((N - 1) * bs) = (N - 1) * bs" by (rule u64_small)
  have "R * bs < 2 ^ 64" using ub(8) e64 by linarith
  then have f10: "u64 (R * bs) = R * bs" by (rule u64_small)
  have om: "offset - L * bs = offset mod bs" by (simp add: L_def minus_div_mult_eq_mod)
  have "offset < 2 ^ 64" using rng by linarith
  then have "sub64 offset (L * bs) = offset mod bs" using ub(5) by (simp add: sub64_small om)
  moreover have "offset mod bs < 2 ^ 32" using bs bs32 mod_less_divisor [of bs offset] by linarith
  ultimately have f11: "u32 (sub64 offset (L * bs)) = offset mod bs" by (simp add: u32_small)
  show ?thesis
  proof (cases "e mod bs = 0")
    case True
    then have c: "(e mod bs = 0) = True" by simp
    show ?thesis
      unfolding pwrite_unaligned_def Let_def
      by (simp only: f1 f2 f3 c if_True f4 [OF True] f5 f6 f7 f8 f9 f10 f11)
  next
    case False
    then have c: "(e mod bs = 0) = False" by simp
    show ?thesis
      unfolding pwrite_unaligned_def Let_def
      by (simp only: f1 f2 f3 c if_False f4' [OF False] f3' f5 f6 f7 f8 f9 f10 f11)
  qed
qed

lemma edge_read_props:
  assumes "(if c then pread_aligned_handle_holes pread_aligned buf pos bs off bs w else (r0, buf, w))
           = (rc, buf', w')"
      and "pos + bs \<le> length buf" and "0 < bs" and "faults_ok w"
  shows "obj_data w' = obj_data w \<and> heap_avail w' = heap_avail w \<and> faults_ok w' \<and>
         length buf' = length buf"
proof (cases c)
  case True
  with assms(1) have h: "pread_aligned_handle_holes pread_aligned buf pos bs off bs w = (rc, buf', w')"
    by simp
  from handle_holes_props [OF h] assms(2-4) show ?thesis by simp
next
  case False
  with assms show ?thesis by simp
qed

lemma pwrite_unaligned_post:
  fixes offset count bs :: nat
  assumes bs: "0 < bs" and bs32: "bs < 2 ^ 32" and blk: "(offset + count) div bs + 1 < 2 ^ 32"
      and rng: "offset + count + bs < 2 ^ 64"
      and un: "\<not> (count mod bs = 0 \<and> offset mod bs = 0)"
      and len: "count \<le> length buf"
      and f: "faults_ok w"
      and res: "pwrite_unaligned offset count bs buf w = (0, w1)"
  defines "lo \<equiv> (offset div bs) * bs"
      and "hi \<equiv> ((offset + count + bs - 1) div bs) * bs"
  shows "faults_ok w1" and "heap_avail w1 = heap_avail w"
    and "\<forall>k<count. obj_data w1 (offset + k) = Some (buf ! k)"
    and "\<forall>i. lo \<le> i \<and> i < hi \<longrightarrow> obj_data w1 i \<noteq> None"
    and "\<forall>i. i < lo \<or> hi \<le> i \<longrightarrow> obj_data w1 i = obj_data w i"
    and "lo \<le> offset" and "offset + count \<le> hi"
proof -
  define e where "e = offset + count"
  define L where "L = offset div bs"
  define R where "R = (if e mod bs = 0 then e div bs - 1 else e div bs)"
  define N where "N = R - L + 1"
  note ub = unaligned_blocks [OF bs blk rng un, folded e_def L_def, folded R_def]
  note eq = pwrite_unaligned_in_range [OF bs bs32 blk rng un, folded e_def L_def, folded R_def,
      folded N_def, of buf w]
  have hi: "hi = (R + 1) * bs" using ub(7) by (simp add: hi_def e_def)
  have lo: "lo = L * bs" by (simp add: lo_def L_def)
  have NL: "L * bs + N * bs = (R + 1) * bs"
  proof -
    have "L + N = R + 1" using ub(1) by (simp add: N_def)
    then have "(L + N) * bs = (R + 1) * bs" by simp
    then show ?thesis by (simp only: add_mult_distrib)
  qed
  have N1: "(N - 1) * bs + bs = N * bs"
  proof -
    have "N - 1 + 1 = N" by (simp add: N_def)
    then have "(N - 1 + 1) * bs = N * bs" by simp
    then show ?thesis by (simp only: add_mult_distrib mult_1)
  qed
  have bsN: "bs \<le> N * bs" using N1 by linarith
  obtain rc1 t1 wa where s1:
    "(if offset mod bs \<noteq> 0
      then pread_aligned_handle_holes pread_aligned (replicate (N * bs) 0) 0 bs (L * bs) bs w
      else (0, replicate (N * bs) 0, w)) = (rc1, t1, wa)"
    by (metis prod_cases3)
  have p1: "obj_data wa = obj_data w" "heap_avail wa = heap_avail w" "faults_ok wa" "length t1 = N * bs"
    using edge_read_props [OF s1 _ bs f] bsN by simp_all
  obtain rc2 t2 wb where s2:
    "(if e mod bs \<noteq> 0 \<and> L \<noteq> R
      then pread_aligned_handle_holes pread_aligned t1 ((N - 1) * bs) bs (R * bs) bs wa
      else (rc1, t1, wa)) = (rc2, t2, wb)"
    by (metis prod_cases3)
  have p2: "obj_data wb = obj_data wa" "heap_avail wb = heap_avail wa" "faults_ok wb" "length t2 = length t1"
    using edge_read_props [OF s2 _ bs p1(3)] N1 p1(4) by simp_all
  define t3 where "t3 = memcpy t2 (offset mod bs) buf 0 count"
  have fin: "pwrite_aligned t3 0 (N * bs) (L * bs) wb = (0, w1)"
    using res s1 s2 unfolding eq t3_def
    by (simp add: ENOMEM_def split: if_splits)
  have om: "offset = L * bs + offset mod bs" by (simp add: L_def)
  have fit: "offset mod bs + count \<le> N * bs"
    using ub(4) NL om unfolding e_def by linarith
  have l3: "length t3 = N * bs"
    unfolding t3_def using fit len p2(4) p1(4) by (simp add: length_memcpy)
  note pw = pwrite_aligned_props [OF fin]
  show "faults_ok w1" using pw(2) p2(3) by simp
  show "heap_avail w1 = heap_avail w" using pw(1) p2(2) p1(2) by simp
  have od: "obj_data w1 = (\<lambda>i. if L * bs \<le> i \<and> i < (R + 1) * bs then Some (t3 ! (i - L * bs))
                                else obj_data w i)"
  proof
    fix i
    have "L * bs \<le> i \<and> i < L * bs + N * bs \<Longrightarrow> i - L * bs < N * bs" by linarith
    then show "obj_data w1 i = (if L * bs \<le> i \<and> i < (R + 1) * bs then Some (t3 ! (i - L * bs))
                                else obj_data w i)"
      using pw(3) [OF refl] l3 p2(1) p1(1) NL by auto
  qed
  show "\<forall>i. lo \<le> i \<and> i < hi \<longrightarrow> obj_data w1 i \<noteq> None" by (simp add: od lo hi)
  show "\<forall>i. i < lo \<or> hi \<le> i \<longrightarrow> obj_data w1 i = obj_data w i" by (auto simp: od lo hi)
  show "lo \<le> offset" using ub(5) by (simp add: lo)
  show "offset + count \<le> hi" using ub(4) by (simp add: hi e_def)
  show "\<forall>k<count. obj_data w1 (offset + k) = Some (buf ! k)"
  proof (intro allI impI)
    fix k assume k: "k < count"
    have a: "L * bs \<le> offset + k" using ub(5) by linarith
    have b: "offset + k < (R + 1) * bs" using ub(4) k unfolding e_def by linarith
    have c: "offset + k - L * bs = offset mod bs + k" using om by linarith
    have "t3 ! (offset mod bs + k) = buf ! (0 + (offset mod bs + k - offset mod bs))"
      unfolding t3_def using fit len p2(4) p1(4) k
      by (subst nth_memcpy) simp_all
    then have "t3 ! (offset mod bs + k) = buf ! k" by simp
    then show "obj_data w1 (offset + k) = Some (buf ! k)" using a b c by (simp add: od)
  qed
qed

lemma memcpy_nil: "memcpy buf pos src s 0 = buf"
  by (simp add: memcpy_def)

lemma obj_bytes_cong: "obj_data w' = obj_data w \<Longrightarrow> obj_bytes w' = obj_bytes w"
  by (simp add: obj_bytes_def fun_eq_iff)

lemma obj_bytes_append: "obj_bytes w off (a + b) = obj_bytes w off a @ obj_bytes w (off + a) b"
proof -
  have "[off ..< off + a + b] = [off ..< off + a] @ [off + a ..< off + a + b]"
    by (intro upt_add_eq_append) simp
  then show ?thesis by (simp add: obj_bytes_def add.assoc)
qed

lemma take_drop_obj_bytes:
  assumes "s + n \<le> m"
  shows "take n (drop s (obj_bytes w off m)) = obj_bytes w (off + s) n"
proof -
  obtain k where m: "m = s + (n + k)" using assms by (metis add.assoc le_Suc_ex)
  have "obj_bytes w off m = obj_bytes w off s @ obj_bytes w (off + s) n @ obj_bytes w (off + s + n) k"
    unfolding m by (simp only: obj_bytes_append)
  then show ?thesis by (simp add: length_obj_bytes)
qed

lemma memcpy_obj_bytes:
  assumes "s + n \<le> m"
  shows "memcpy dst p (obj_bytes w off m) s n = memcpy dst p (obj_bytes w (off + s) n) 0 n"
  by (simp add: memcpy_def take_drop_obj_bytes [OF assms] length_obj_bytes)

lemma memcpy_memcpy:
  assumes "p + a + b \<le> length buf" and "length A = a" and "length B = b"
  shows "memcpy (memcpy buf p A 0 a) (p + a) B 0 b = memcpy buf p (A @ B) 0 (a + b)"
proof -
  have l: "length (take p buf) = p" using assms(1) by simp
  have "drop (p + a + b) (take p buf @ A @ drop (p + a) buf) = drop (p + a + b) buf"
    using assms l by (simp add: add.commute add.left_commute)
  moreover have "take (p + a) (take p buf @ A @ drop (p + a) buf) = take p buf @ A"
    using assms l by simp
  ultimately show ?thesis using assms by (simp add: memcpy_def add.assoc)
qed

lemma memcpy_whole: "length dst = n \<Longrightarrow> length src = n \<Longrightarrow> memcpy dst 0 src 0 n = src"
  by (simp add: memcpy_def)

lemma present_sub:
  assumes "\<forall>i. lo \<le> i \<and> i < hi \<longrightarrow> obj_data w i \<noteq> None" and "lo \<le> off" and "off + n \<le> hi"
  shows "present w off n"
  using assms by (auto simp: present_iff)

lemma dvd_next_block:
  fixes a hi bs :: nat
  assumes "bs dvd a" and "bs dvd hi" and "a < hi"
  shows "a + bs \<le> hi"
proof -
  obtain x where x: "a = bs * x" using assms(1) by (auto simp: dvd_def)
  obtain y where y: "hi = bs * y" using assms(2) by (auto simp: dvd_def)
  from assms(3) x y have "x < y" by simp
  then have "Suc x \<le> y" by simp
  then have "bs * Suc x \<le> bs * y" by (rule mult_le_mono2)
  then show ?thesis using x y by simp
qed

lemma pread_unaligned_right_present:
  assumes res: "pread_unaligned_right rc offset count pos bs buf tmpbuf w = (0, r, w')"
      and f: "faults_ok w" and bs: "0 < bs" and lt: "length tmpbuf = bs" and cb: "count \<le> bs"
      and pr: "0 < count \<Longrightarrow> present w offset bs"
      and fit: "pos + count \<le> length buf"
  shows "r = memcpy buf pos (obj_bytes w offset count) 0 count \<and> faults_ok w' \<and>
         obj_data w' = obj_data w"
proof (cases "count = 0")
  case True
  with res f show ?thesis by (simp add: pread_unaligned_right_def memcpy_nil)
next
  case False
  obtain rc' tmp' w1 where h: "pread_aligned_handle_holes pread_aligned tmpbuf 0 bs offset bs w = (rc', tmp', w1)"
    by (metis prod_cases3)
  note hp = handle_holes_props [OF h]
  from res False h have r: "rc' = 0" "r = memcpy buf pos tmp' 0 count" "w' = w1"
    by (auto simp: pread_unaligned_right_def split: if_splits)
  have "tmp' = memcpy tmpbuf 0 (obj_bytes w offset bs) 0 bs"
    using hp(5) f pr False r(1) by simp
  then have t: "tmp' = obj_bytes w offset bs" using lt by (simp add: memcpy_whole length_obj_bytes)
  have "memcpy buf pos (obj_bytes w offset bs) 0 count = memcpy buf pos (obj_bytes w (offset + 0) count) 0 count"
    using cb by (intro memcpy_obj_bytes) simp
  then show ?thesis using r t hp(1,3) f by simp
qed

lemma present_cong: "obj_data w' = obj_data w \<Longrightarrow> present w' = present w"
  by (simp add: present_def fun_eq_iff)

lemma pread_unaligned_cont_present:
  assumes res: "pread_unaligned_cont rc offset count pos bs buf tmpbuf w = (0, r, w')"
      and f: "faults_ok w" and bs: "0 < bs" and lt: "length tmpbuf = bs"
      and c32: "pos + count < 2 ^ 32" and r64: "offset + count < 2 ^ 64"
      and al: "bs dvd offset" and hd: "bs dvd hi" and eh: "offset + count \<le> hi"
      and pr: "\<forall>i. offset \<le> i \<and> i < hi \<longrightarrow> obj_data w i \<noteq> None"
      and fit: "pos + count \<le> length buf"
  shows "r = memcpy buf pos (obj_bytes w offset count) 0 count \<and> faults_ok w' \<and>
         obj_data w' = obj_data w"
proof -
  define c where "c = count div bs"
  define m where "m = count mod bs"
  have cm: "count = c * bs + m" by (simp add: c_def m_def)
  have mb: "m < bs" using bs by (simp add: m_def)
  have cle: "c * bs \<le> count" using cm by simp
  have "c \<le> count" unfolding c_def by (rule div_le_dividend)
  then have "c < 2 ^ 32" using c32 by linarith
  then have f1: "u32 (count div bs) = c" by (simp add: u32_small c_def)
  have "c * bs < 2 ^ 64" using cle r64 by linarith
  then have f2: "u64 (c * bs) = c * bs" by (rule u64_small)
  have "offset + c * bs < 2 ^ 64" using cle r64 by linarith
  then have f3: "u64 (offset + c * bs) = offset + c * bs" by (rule u64_small)
  have "count < 2 ^ 64" using r64 by linarith
  then have "sub64 count (c * bs) = count - c * bs" using cle by (simp add: sub64_small)
  then have f4: "sub64 count (c * bs) = m" using cm by simp
  have "pos + c * bs < 2 ^ 32" using cle c32 by linarith
  then have f5: "u32 (pos + c * bs) = pos + c * bs" by (rule u32_small)
  have eq: "pread_unaligned_cont rc offset count pos bs buf tmpbuf w =
     (if c > 0 then
        (case pread_aligned_handle_holes pread_aligned buf pos (c * bs) offset bs w of
           (rc', buf', w') \<Rightarrow>
             if rc' < 0 then (rc', buf', w')
             else pread_unaligned_right rc' (offset + c * bs) m (pos + c * bs) bs buf' tmpbuf w')
      else pread_unaligned_right rc offset count pos bs buf tmpbuf w)"
    unfolding pread_unaligned_cont_def Let_def
    by (simp only: f1 f2 f3 f4 f5)
  have blk: "present w a bs" if "bs dvd a" and "offset \<le> a" and "a < offset + count" for a
  proof -
    have "a < hi" using that(3) eh by linarith
    from dvd_next_block [OF that(1) hd this] have "a + bs \<le> hi" .
    with pr that(2) show ?thesis by (intro present_sub [of offset hi]) auto
  qed
  show ?thesis
  proof (cases "c > 0")
    case False
    then have "count = m" using cm by simp
    then have cb: "count \<le> bs" using mb by simp
    from res eq False
    have rr: "pread_unaligned_right rc offset count pos bs buf tmpbuf w = (0, r, w')" by simp
    have "0 < count \<Longrightarrow> present w offset bs" using blk [OF al] by simp
    from pread_unaligned_right_present [OF rr f bs lt cb this fit] show ?thesis .
  next
    case True
    obtain rc' buf' w1 where h:
      "pread_aligned_handle_holes pread_aligned buf pos (c * bs) offset bs w = (rc', buf', w1)"
      by (metis prod_cases3)
    note hp = handle_holes_props [OF h]
    have fit1: "pos + c * bs \<le> length buf" using cle fit by linarith
    have f1': "faults_ok w1" and le0: "rc' \<le> 0" using hp(3) f by simp_all
    from res eq True h have ge0: "\<not> rc' < 0"
      and rr: "pread_unaligned_right rc' (offset + c * bs) m (pos + c * bs) bs buf' tmpbuf w1 = (0, r, w')"
      by (auto split: if_splits)
    have z: "rc' = 0" using le0 ge0 by linarith
    have pc: "present w offset (c * bs)"
      using pr cle eh by (intro present_sub [of offset hi]) auto
    have b': "buf' = memcpy buf pos (obj_bytes w offset (c * bs)) 0 (c * bs)"
      using hp(5) f pc z by simp
    have lb: "length buf' = length buf" using hp(4) fit1 bs by simp
    have d: "bs dvd (offset + c * bs)" using al by simp
    have pm: "0 < m \<Longrightarrow> present w1 (offset + c * bs) bs"
    proof -
      assume "0 < m"
      then have "offset + c * bs < offset + count" using cm by linarith
      from blk [OF d _ this] show ?thesis by (simp add: present_cong [OF hp(1)])
    qed
    have fit2: "pos + c * bs + m \<le> length buf'" using fit cm lb by linarith
    from pread_unaligned_right_present [OF rr f1' bs lt _ pm fit2] mb
    have r: "r = memcpy buf' (pos + c * bs) (obj_bytes w1 (offset + c * bs) m) 0 m"
      and fw: "faults_ok w'" and ow: "obj_data w' = obj_data w1" by simp_all
    have "r = memcpy (memcpy buf pos (obj_bytes w offset (c * bs)) 0 (c * bs)) (pos + c * bs)
                (obj_bytes w (offset + c * bs) m) 0 m"
      using r b' by (simp add: obj_bytes_cong [OF hp(1)])
    also have "\<dots> = memcpy buf pos (obj_bytes w offset (c * bs) @ obj_bytes w (offset + c * bs) m) 0
                       (c * bs + m)"
      using fit cm by (intro memcpy_memcpy) (simp_all add: length_obj_bytes)
    also have "\<dots> = memcpy buf pos (obj_bytes w offset count) 0 count"
      by (simp only: obj_bytes_append [symmetric] cm [symmetric])
    finally show ?thesis using fw ow hp(1) by simp
  qed
qed

lemma pread_unaligned_present:
  assumes res: "pread_unaligned offset count bs buf w = (0, r, w')"
      and f: "faults_ok w" and bs: "0 < bs" and bs32: "bs < 2 ^ 32" and c32: "count < 2 ^ 32"
      and blk: "offset div bs < 2 ^ 32" and r64: "offset + count < 2 ^ 64"
      and un: "\<not> (count mod bs = 0 \<and> offset mod bs = 0)"
      and hd: "bs dvd hi" and eh: "offset + count \<le> hi"
      and pr: "\<forall>i. (offset div bs) * bs \<le> i \<and> i < hi \<longrightarrow> obj_data w i \<noteq> None"
      and fit: "count \<le> length buf"
  shows "r = memcpy buf 0 (obj_bytes w offset count) 0 count \<and> faults_ok w' \<and>
         obj_data w' = obj_data w"
proof -
  define L where "L = offset div bs"
  define lb where "lb = offset mod bs"
  define rb where "rb = bs - lb"
  define rc0 where "rc0 = (if count < rb then count else rb)"
  have off: "offset = L * bs + lb" by (simp add: L_def lb_def)
  have lbb: "lb < bs" using bs by (simp add: lb_def)
  have rbb: "rb \<le> bs" "0 < rb" "lb + rb = bs" using lbb by (simp_all add: rb_def)
  have rc0c: "rc0 \<le> count" "rc0 \<le> rb" by (simp_all add: rc0_def)
  have g1: "u32 (offset div bs) = L" using blk by (simp add: u32_small L_def)
  have "L * bs < 2 ^ 64" using off r64 by linarith
  then have g2: "u64 (L * bs) = L * bs" by (rule u64_small)
  have "offset < 2 ^ 64" using r64 by linarith
  then have "sub64 offset (L * bs) = offset - L * bs" using off by (simp add: sub64_small)
  then have s1: "sub64 offset (L * bs) = lb" using off by simp
  have "lb < 2 ^ 32" using lbb bs32 by linarith
  then have g3: "u32 (sub64 offset (L * bs)) = lb" by (simp add: s1 u32_small)
  have "bs < 2 ^ 64" using bs32 by simp
  then have "sub64 bs lb = rb" using lbb by (simp add: sub64_small rb_def)
  moreover have "rb < 2 ^ 32" using rbb(1) bs32 by linarith
  ultimately have g4: "u32 (sub64 bs lb) = rb" by (simp add: u32_small)
  have "rc0 < 2 ^ 32" using rc0c(1) c32 by linarith
  then have g5: "u32 (if count < rb then count else rb) = rc0" by (simp add: u32_small rc0_def)
  have "offset + rc0 < 2 ^ 64" using rc0c(1) r64 by linarith
  then have g6: "u64 (offset + rc0) = offset + rc0" by (rule u64_small)
  have "count < 2 ^ 64" using r64 by linarith
  then have g7: "sub64 count rc0 = count - rc0" using rc0c(1) by (simp add: sub64_small)
  have eq: "pread_unaligned offset count bs buf w =
     (if \<not> calloc_ok w bs then (- ENOMEM, buf, w)
      else if offset mod bs = 0 \<and> count \<ge> bs
           then pread_unaligned_cont 0 offset count 0 bs buf (replicate bs 0) w
           else (case pread_aligned_handle_holes pread_aligned (replicate bs 0) 0 bs (L * bs) bs w of
                   (rc, tmpbuf1, w1) \<Rightarrow>
                     if rc < 0 then (rc, buf, w1)
                     else if count \<le> rb then (rc, memcpy buf 0 tmpbuf1 lb rc0, w1)
                          else pread_unaligned_cont rc (offset + rc0) (count - rc0) rc0 bs
                                 (memcpy buf 0 tmpbuf1 lb rc0) tmpbuf1 w1))"
    unfolding pread_unaligned_def Let_def
    by (simp only: g1 g2 g3 g4 g5 g6 g7 cong: if_cong)
  have ok: "calloc_ok w bs" using res eq by (auto simp: ENOMEM_def split: if_splits)
  show ?thesis
  proof (cases "offset mod bs = 0 \<and> count \<ge> bs")
    case True
    with res eq ok
    have rr: "pread_unaligned_cont 0 offset count 0 bs buf (replicate bs 0) w = (0, r, w')" by simp
    have al: "bs dvd offset" using True by (simp add: mod_eq_0_iff_dvd)
    have lo: "(offset div bs) * bs = offset" using True div_mult_mod_eq [of offset bs] by simp
    have pr': "\<forall>i. offset \<le> i \<and> i < hi \<longrightarrow> obj_data w i \<noteq> None" using pr by (simp add: lo)
    from pread_unaligned_cont_present [OF rr f bs _ _ r64 al hd eh pr'] c32 fit
    show ?thesis by simp
  next
    case False
    obtain rc tmp1 w1 where h:
      "pread_aligned_handle_holes pread_aligned (replicate bs 0) 0 bs (L * bs) bs w = (rc, tmp1, w1)"
      by (metis prod_cases3)
    note hp = handle_holes_props [OF h]
    have f1: "faults_ok w1" and le0: "rc \<le> 0" using hp(3) f by simp_all
    from res eq ok False h have ge0: "\<not> rc < 0" by (auto split: if_splits)
    have z: "rc = 0" using le0 ge0 by linarith
    have Lhi: "L * bs < hi"
    proof (cases "lb = 0")
      case True
      then have "count mod bs \<noteq> 0" using un by (simp add: lb_def)
      then have "0 < count" by (cases "count = 0") simp_all
      then show ?thesis using off True eh by linarith
    next
      case False
      then show ?thesis using off eh by linarith
    qed
    have "L * bs + bs \<le> hi" by (intro dvd_next_block [OF _ hd Lhi]) simp
    then have pL: "present w (L * bs) bs"
      using pr by (intro present_sub [of "L * bs" hi]) (auto simp: L_def)
    have "tmp1 = memcpy (replicate bs 0) 0 (obj_bytes w (L * bs) bs) 0 bs"
      using hp(5) f pL z by simp
    then have t1: "tmp1 = obj_bytes w (L * bs) bs" by (simp add: memcpy_whole length_obj_bytes)
    have "memcpy buf 0 (obj_bytes w (L * bs) bs) lb rc0 = memcpy buf 0 (obj_bytes w (L * bs + lb) rc0) 0 rc0"
      using rc0c(2) rbb(3) by (intro memcpy_obj_bytes) linarith
    then have b1: "memcpy buf 0 tmp1 lb rc0 = memcpy buf 0 (obj_bytes w offset rc0) 0 rc0"
      using t1 off by simp
    show ?thesis
    proof (cases "count \<le> rb")
      case True
      then have "rc0 = count" by (simp add: rc0_def)
      with res eq ok False h z True b1 f1 hp(1) show ?thesis by simp
    next
      case nle: False
      then have rc0: "rc0 = rb" by (simp add: rc0_def)
      from res eq ok False h z nle
      have rr: "pread_unaligned_cont 0 (offset + rb) (count - rb) rb bs
                  (memcpy buf 0 (obj_bytes w offset rb) 0 rb) tmp1 w1 = (0, r, w')"
        using b1 by (simp add: rc0)
      have lt: "length tmp1 = bs" by (simp add: t1 length_obj_bytes)
      have a1: "rb + (count - rb) < 2 ^ 32" using nle c32 by linarith
      have a2: "offset + rb + (count - rb) < 2 ^ 64" using nle r64 by linarith
      have "offset + rb = (L + 1) * bs" using off rbb(3) by (simp add: algebra_simps)
      then have a3: "bs dvd (offset + rb)" by simp
      have a4: "offset + rb + (count - rb) \<le> hi" using nle eh by linarith
      have h0: "(offset div bs) * bs \<le> offset" by simp
      have a5: "\<forall>i. offset + rb \<le> i \<and> i < hi \<longrightarrow> obj_data w1 i \<noteq> None"
      proof (intro allI impI)
        fix i assume i: "offset + rb \<le> i \<and> i < hi"
        then have "(offset div bs) * bs \<le> i \<and> i < hi" using h0 by linarith
        with pr show "obj_data w1 i \<noteq> None" by (simp add: hp(1))
      qed
      have lenb: "length (memcpy buf 0 (obj_bytes w offset rb) 0 rb) = length buf"
        using nle fit by (intro length_memcpy) (simp_all add: length_obj_bytes)
      have a6: "rb + (count - rb) \<le> length (memcpy buf 0 (obj_bytes w offset rb) 0 rb)"
        using nle fit lenb by linarith
      from pread_unaligned_cont_present [OF rr f1 bs lt a1 a2 a3 hd a4 a5 a6]
      have r: "r = memcpy (memcpy buf 0 (obj_bytes w offset rb) 0 rb) rb
                     (obj_bytes w1 (offset + rb) (count - rb)) 0 (count - rb)"
        and fw: "faults_ok w'" and ow: "obj_data w' = obj_data w1" by simp_all
      have "r = memcpy (memcpy buf 0 (obj_bytes w offset rb) 0 rb) (0 + rb)
                  (obj_bytes w (offset + rb) (count - rb)) 0 (count - rb)"
        using r by (simp add: obj_bytes_cong [OF hp(1)])
      also have "\<dots> = memcpy buf 0 (obj_bytes w offset rb @ obj_bytes w (offset + rb) (count - rb)) 0
                         (rb + (count - rb))"
        using nle fit by (intro memcpy_memcpy) (simp_all add: length_obj_bytes)
      also have "\<dots> = memcpy buf 0 (obj_bytes w offset (rb + (count - rb))) 0 (rb + (count - rb))"
        by (simp only: obj_bytes_append [symmetric])
      also have "rb + (count - rb) = count" using nle by simp
      finally show ?thesis using fw ow hp(1) by simp
    qed
  qed
qed

lemma dstore_pread_present:
  assumes res: "dstore_pread offset count bs buf w = (0, r, w')"
      and f: "faults_ok w" and bs: "0 < bs" and bs32: "bs < 2 ^ 32" and c32: "count < 2 ^ 32"
      and blk: "offset div bs < 2 ^ 32" and r64: "offset + count < 2 ^ 64"
      and hd: "bs dvd hi" and eh: "offset + count \<le> hi"
      and pr: "\<forall>i. (offset div bs) * bs \<le> i \<and> i < hi \<longrightarrow> obj_data w i \<noteq> None"
      and fit: "count \<le> length buf"
  shows "r = memcpy buf 0 (obj_bytes w offset count) 0 count \<and> faults_ok w' \<and>
         obj_data w' = obj_data w"
proof (cases "count mod bs = 0 \<and> offset mod bs = 0")
  case True
  with res have h: "pread_aligned_handle_holes pread_aligned buf 0 count offset bs w = (0, r, w')"
    by (simp add: dstore_pread_def dstore_pread_inner_def)
  have "(offset div bs) * bs \<le> offset" by simp
  with pr eh have "present w offset count" by (intro present_sub [of "(offset div bs) * bs" hi]) auto
  with handle_holes_props [OF h] f show ?thesis by simp
next
  case False
  with res have h: "pread_unaligned offset count bs buf w = (0, r, w')"
    by (simp add: dstore_pread_def dstore_pread_inner_def)
  from pread_unaligned_present [OF h f bs bs32 c32 blk r64 False hd eh pr fit] show ?thesis .
qed

lemma dstore_pwrite_post:
  fixes offset count bs :: nat
  assumes bs: "0 < bs" and bs32: "bs < 2 ^ 32" and blk: "(offset + count) div bs + 1 < 2 ^ 32"
      and rng: "offset + count + bs < 2 ^ 64"
      and len: "count \<le> length buf"
      and f: "faults_ok w"
      and res: "dstore_pwrite offset count bs buf w = (0, w1)"
  defines "lo \<equiv> (offset div bs) * bs"
      and "hi \<equiv> ((offset + count + bs - 1) div bs) * bs"
  shows "faults_ok w1" and "heap_avail w1 = heap_avail w"
    and "\<forall>k<count. obj_data w1 (offset + k) = Some (buf ! k)"
    and "\<forall>i. lo \<le> i \<and> i < hi \<longrightarrow> obj_data w1 i \<noteq> None"
    and "\<forall>i. i < lo \<or> hi \<le> i \<longrightarrow> obj_data w1 i = obj_data w i"
    and "lo \<le> offset" and "offset + count \<le> hi"
proof -
  have all: "faults_ok w1 \<and> heap_avail w1 = heap_avail w \<and>
    (\<forall>k<count. obj_data w1 (offset + k) = Some (buf ! k)) \<and>
    (\<forall>i. lo \<le> i \<and> i < hi \<longrightarrow> obj_data w1 i \<noteq> None) \<and>
    (\<forall>i. i < lo \<or> hi \<le> i \<longrightarrow> obj_data w1 i = obj_data w i) \<and>
    lo \<le> offset \<and> offset + count \<le> hi"
  proof (cases "count mod bs = 0 \<and> offset mod bs = 0")
    case False
    with res have h: "pwrite_unaligned offset count bs buf w = (0, w1)"
      by (simp add: dstore_pwrite_def dstore_pwrite_inner_def)
    from pwrite_unaligned_post [OF bs bs32 blk rng False len f h]
    show ?thesis unfolding lo_def hi_def by simp
  next
    case True
    with res have h: "pwrite_aligned buf 0 count offset w = (0, w1)"
      by (simp add: dstore_pwrite_def dstore_pwrite_inner_def)
    note pw = pwrite_aligned_props [OF h]
    have lo: "lo = offset" unfolding lo_def using True div_mult_mod_eq [of offset bs] by simp
    have em: "(offset + count) mod bs = 0" using True by (simp add: mod_add_eq [symmetric] mod_eq_0_iff_dvd)
    have "(offset + count + bs - 1) div bs = (offset + count) div bs"
      using div_round_up [OF bs, of "offset + count"] em by simp
    then have hi: "hi = offset + count"
      unfolding hi_def using em div_mult_mod_eq [of "offset + count" bs] by simp
    have od: "obj_data w1 = (\<lambda>i. if offset \<le> i \<and> i < offset + count then Some (buf ! (i - offset))
                                  else obj_data w i)"
    proof
      fix i
      have "offset \<le> i \<and> i < offset + count \<Longrightarrow> i - offset < length buf" using len by linarith
      then show "obj_data w1 i = (if offset \<le> i \<and> i < offset + count then Some (buf ! (i - offset))
                                  else obj_data w i)"
        using pw(3) [OF refl] by auto
    qed
    show ?thesis using pw(1,2) f by (auto simp: od lo hi)
  qed
  then show "faults_ok w1" and "heap_avail w1 = heap_avail w"
    and "\<forall>k<count. obj_data w1 (offset + k) = Some (buf ! k)"
    and "\<forall>i. lo \<le> i \<and> i < hi \<longrightarrow> obj_data w1 i \<noteq> None"
    and "\<forall>i. i < lo \<or> hi \<le> i \<longrightarrow> obj_data w1 i = obj_data w i"
    and "lo \<le> offset" and "offset + count \<le> hi" by simp_all
qed

section \<open>Read after write, within the range of the block counters\<close>

text \<open>
  Where the block numbers fit the \<open>uint32_t\<close> variables of the unaligned routines
  (block size and count below \<open>2^32\<close>, the last block number below \<open>2^32 - 1\<close>,
  the request below \<open>2^64\<close>) and the backend fails only with negative codes other
  than \<open>-ENOENT\<close>: a successful \<open>dstore_pwrite\<close> of \<open>count\<close> bytes followed by a
  successful \<open>dstore_pread\<close> of the same range yields the bytes written, for aligned
  and unaligned requests alike, whatever the object held before.
\<close>

theorem pwrite_pread_roundtrip_in_range:
  assumes "0 < bs" and "bs < 2 ^ 32" and "count < 2 ^ 32"
      and "(offset + count) div bs + 1 < 2 ^ 32" and "offset + count + bs < 2 ^ 64"
      and "length wbuf = count" and "length rbuf = count"
      and "faults_ok w"
      and "dstore_pwrite offset count bs wbuf w = (0, w1)"
      and "dstore_pread offset count bs rbuf w1 = (0, r, w2)"
  shows "r = wbuf"
proof -
  note post = dstore_pwrite_post [OF assms(1,2,4,5) _ assms(8,9), of ]
  have len: "count \<le> length wbuf" using assms(6) by simp
  have "offset div bs \<le> (offset + count) div bs" by (intro div_le_mono) simp
  then have blk: "offset div bs < 2 ^ 32" using assms(4) by linarith
  have r64: "offset + count < 2 ^ 64" using assms(5) by linarith
  have hd: "bs dvd ((offset + count + bs - 1) div bs) * bs" by simp
  have fit: "count \<le> length rbuf" using assms(7) by simp
  from dstore_pread_present [OF assms(10) post(1) [OF len] assms(1,2,3) blk r64 hd post(7) [OF len]
      post(4) [OF len] fit]
  have "r = memcpy rbuf 0 (obj_bytes w1 offset count) 0 count" by simp
  then have r: "r = obj_bytes w1 offset count" using assms(7) by (simp add: memcpy_whole length_obj_bytes)
  have "obj_bytes w1 offset count = wbuf"
  proof (rule nth_equalityI)
    show "length (obj_bytes w1 offset count) = length wbuf" using assms(6) by (simp add: length_obj_bytes)
  next
    fix i assume "i < length (obj_bytes w1 offset count)"
    then have i: "i < count" by (simp add: length_obj_bytes)
    then show "obj_bytes w1 offset count ! i = wbuf ! i"
      using post(3) [OF len] by (simp add: nth_obj_bytes)
  qed
  with r show ?thesis by simp
qed

theorem pwrite_pread_roundtrip_in_range_witness:
  "fst (dstore_pwrite 3 3 4 [1, 2, 3] (fresh_world 64)) = 0 \<and>
   fst (dstore_pread 3 3 4 [0, 0, 0] (snd (dstore_pwrite 3 3 4 [1, 2, 3] (fresh_world 64)))) = 0 \<and>
   fst (snd (dstore_pread 3 3 4 [0, 0, 0] (snd (dstore_pwrite 3 3 4 [1, 2, 3] (fresh_world 64)))))
     = [1, 2, 3]"
proof -
  define w1 where "w1 = snd (dstore_pwrite 3 3 4 [1, 2, 3] (fresh_world 64))"
  define r where "r = fst (snd (dstore_pread 3 3 4 [0, 0, 0] w1))"
  define w2 where "w2 = snd (snd (dstore_pread 3 3 4 [0, 0, 0] w1))"
  have a: "fst (dstore_pwrite 3 3 4 [1, 2, 3] (fresh_world 64)) = 0"
    by (simp add: io_eval)
  have b: "fst (dstore_pread 3 3 4 [0, 0, 0] (snd (dstore_pwrite 3 3 4 [1, 2, 3] (fresh_world 64)))) = 0"
    by (simp add: io_eval)
  have pw: "dstore_pwrite 3 3 4 [1, 2, 3] (fresh_world 64) = (0, w1)"
    using a by (simp add: w1_def prod_eq_iff)
  have pr: "dstore_pread 3 3 4 [0, 0, 0] w1 = (0, r, w2)"
    using b by (simp add: w1_def r_def w2_def prod_eq_iff)
  have "r = [1, 2, 3]"
    by (rule pwrite_pread_roundtrip_in_range [OF _ _ _ _ _ _ _ _ pw pr])
       (simp_all add: faults_ok_def fresh_world_def)
  with a b show ?thesis by (simp add: r_def w1_def)
qed

text \<open>
  Under the same conditions a successful \<open>dstore_pwrite\<close> changes no byte outside the
  blocks that its range meets.
\<close>

theorem pwrite_keeps_other_blocks:
  assumes "0 < bs" and "bs < 2 ^ 32"
      and "(offset + count) div bs + 1 < 2 ^ 32" and "offset + count + bs < 2 ^ 64"
      and "count \<le> length buf"
      and "faults_ok w"
      and "dstore_pwrite offset count bs buf w = (0, w1)"
      and "i < (offset div bs) * bs \<or> ((offset + count + bs - 1) div bs) * bs \<le> i"
  shows "obj_data w1 i = obj_data w i"
  using dstore_pwrite_post(5) [OF assms(1-7)] assms(8) by blast

theorem pwrite_keeps_other_blocks_witness:
  "obj_data (snd (dstore_pwrite 0 4 4 [1, 2, 3, 4] (fresh_world 64))) 2 = Some 3 \<and>
   fst (dstore_pwrite 5 2 4 [9, 9] (snd (dstore_pwrite 0 4 4 [1, 2, 3, 4] (fresh_world 64)))) = 0 \<and>
   obj_data (snd (dstore_pwrite 5 2 4 [9, 9] (snd (dstore_pwrite 0 4 4 [1, 2, 3, 4] (fresh_world 64))))) 2
     = Some 3"
proof -
  define w where "w = snd (dstore_pwrite 0 4 4 [1, 2, 3, 4] (fresh_world 64))"
  define w1 where "w1 = snd (dstore_pwrite 5 2 4 [9, 9] w)"
  have a: "obj_data w 2 = Some 3" by (simp add: w_def io_eval)
  have f: "faults_ok w" by (simp add: w_def io_eval faults_ok_def)
  have b: "fst (dstore_pwrite 5 2 4 [9, 9] w) = 0" by (simp add: w_def io_eval)
  then have pw: "dstore_pwrite 5 2 4 [9, 9] w = (0, w1)" by (simp add: w1_def prod_eq_iff)
  have "obj_data w1 2 = obj_data w 2"
    by (rule pwrite_keeps_other_blocks [OF _ _ _ _ _ f pw]) simp_all
  with a b show ?thesis by (simp add: w_def w1_def)
qed

end
